theory Spec2Isabelle
  imports Main "HOL-Library.Multiset" "HOL-Library.Product_Lexorder" "HOL-Library.Sublist"
begin

section \<open>Values, documents and errors\<close>

text \<open>
  The analytics routes of \<^verbatim>\<open>app/routes/analytics.py\<close> read match documents as they
  come out of the document store, and the loader script inserts parsed JSON as it is. A
  field can therefore hold any JSON value, and the model keeps that: \<open>pyval\<close> is the
  universe of Python values the routes can meet (\<open>None\<close>, booleans, unbounded integers,
  strings, lists, and dictionaries with string keys, kept as association lists read by
  their first entry for a key). Floating-point numbers are left out of the universe.
\<close>

datatype pyval =
    PNone
  | PBool bool
  | PInt int
  | PStr string
  | PList "pyval list"
  | PDict "(string \<times> pyval) list"

type_synonym doc = "(string \<times> pyval) list"

text \<open>Every exception the modelled code can raise is a value of \<open>py_error\<close>.\<close>

datatype py_error = ValueError | TypeError | AttributeError | KeyError

text \<open>\<^verbatim>\<open>d.get(k)\<close> and \<^verbatim>\<open>d.get(k, default)\<close> on a dictionary.\<close>

definition dget_default :: "doc \<Rightarrow> string \<Rightarrow> pyval \<Rightarrow> pyval" where
  "dget_default d k dflt = (case map_of d k of None \<Rightarrow> dflt | Some v \<Rightarrow> v)"

definition dget :: "doc \<Rightarrow> string \<Rightarrow> pyval" where
  "dget d k = dget_default d k PNone"

text \<open>Python truthiness, and \<^verbatim>\<open>x or y\<close>.\<close>

fun truthy :: "pyval \<Rightarrow> bool" where
  "truthy PNone = False"
| "truthy (PBool b) = b"
| "truthy (PInt i) = (i \<noteq> 0)"
| "truthy (PStr s) = (s \<noteq> [])"
| "truthy (PList xs) = (xs \<noteq> [])"
| "truthy (PDict kvs) = (kvs \<noteq> [])"

definition py_or :: "pyval \<Rightarrow> pyval \<Rightarrow> pyval" where
  "py_or x y = (if truthy x then x else y)"

subsection \<open>\<^verbatim>\<open>int(...)\<close> and \<^verbatim>\<open>str.split\<close>\<close>

text \<open>
  \<^verbatim>\<open>int(s)\<close> on a string: surrounding whitespace is dropped, one sign is allowed, and
  the rest must be decimal digits, where single underscores may separate digits. Anything
  else is a \<^verbatim>\<open>ValueError\<close>, here \<open>None\<close>. Strings are ASCII strings in the model.
  On an ASCII string the whitespace \<^verbatim>\<open>int\<close> drops is the tab, the line feed, the
  vertical tab, the form feed, the carriage return and the space (bytes 9 to 13 and 32),
  and the digits are \<open>0\<close> to \<open>9\<close>. A string with more than 4300 digits, the
  interpreter's default cap, is a \<^verbatim>\<open>ValueError\<close> whatever it denotes.
\<close>

definition is_space :: "char \<Rightarrow> bool" where
  "is_space c = (let n = (of_char c :: nat) in (9 \<le> n \<and> n \<le> 13) \<or> n = 32)"

definition digit_val :: "char \<Rightarrow> int option" where
  "digit_val c = (let n = (of_char c :: nat) in
     if 48 \<le> n \<and> n \<le> 57 then Some (int n - 48) else None)"

definition strip :: "string \<Rightarrow> string" where
  "strip s = rev (dropWhile is_space (rev (dropWhile is_space s)))"

fun digits_from :: "int \<Rightarrow> string \<Rightarrow> int option" where
  "digits_from acc [] = Some acc"
| "digits_from acc (c # cs) =
     (if c = CHR ''_'' then
        (case cs of
           [] \<Rightarrow> None
         | d # ds \<Rightarrow> (case digit_val d of
                        None \<Rightarrow> None
                      | Some v \<Rightarrow> digits_from (acc * 10 + v) ds))
      else (case digit_val c of
              None \<Rightarrow> None
            | Some v \<Rightarrow> digits_from (acc * 10 + v) cs))"

definition max_str_digits :: nat where
  "max_str_digits = 4300"

definition unsigned_of_str :: "string \<Rightarrow> int option" where
  "unsigned_of_str s =
     (if length (filter (\<lambda>c. digit_val c \<noteq> None) s) > max_str_digits then None
      else case s of
             [] \<Rightarrow> None
           | c # cs \<Rightarrow> (case digit_val c of None \<Rightarrow> None | Some v \<Rightarrow> digits_from v cs))"

definition int_of_str :: "string \<Rightarrow> int option" where
  "int_of_str s =
     (case strip s of
        [] \<Rightarrow> None
      | c # cs \<Rightarrow>
          if c = CHR ''-'' then map_option uminus (unsigned_of_str cs)
          else if c = CHR ''+'' then unsigned_of_str cs
          else unsigned_of_str (c # cs))"

fun py_int :: "pyval \<Rightarrow> py_error + int" where
  "py_int (PInt i) = Inr i"
| "py_int (PBool b) = Inr (if b then 1 else 0)"
| "py_int (PStr s) = (case int_of_str s of None \<Rightarrow> Inl ValueError | Some i \<Rightarrow> Inr i)"
| "py_int PNone = Inl TypeError"
| "py_int (PList xs) = Inl TypeError"
| "py_int (PDict kvs) = Inl TypeError"

text \<open>\<^verbatim>\<open>s.split(sep)\<close> for a one-character separator: never an empty list.\<close>

fun split_on :: "char \<Rightarrow> string \<Rightarrow> string list" where
  "split_on sep [] = [[]]"
| "split_on sep (c # cs) =
     (if c = sep then [] # split_on sep cs
      else (case split_on sep cs of
              [] \<Rightarrow> [[c]]
            | p # ps \<Rightarrow> (c # p) # ps))"

section \<open>Score extraction\<close>

text \<open>
  \<^verbatim>\<open>parse_score\<close>, lines 188 to 200. \<open>parse_fulltime\<close> is the body from line 190 on,
  applied to the value bound to \<^verbatim>\<open>fulltime\<close> in line 189. In the dictionary branch
  the two \<^verbatim>\<open>int(...)\<close> calls are outside any \<^verbatim>\<open>try\<close>, so their exception leaves the
  function; in the string branch the unpacking of the split and both conversions are
  inside the \<^verbatim>\<open>try\<close>, whose handler returns \<^verbatim>\<open>(0, 0)\<close>.
\<close>

definition parse_fulltime :: "pyval \<Rightarrow> py_error + (int \<times> int)" where
  "parse_fulltime fulltime =
     (case fulltime of
        PDict f \<Rightarrow>
          (case py_int (py_or (dget_default f ''home'' (PInt 0)) (PInt 0)) of
             Inl e \<Rightarrow> Inl e
           | Inr home \<Rightarrow>
               (case py_int (py_or (dget_default f ''away'' (PInt 0)) (PInt 0)) of
                  Inl e \<Rightarrow> Inl e
                | Inr away \<Rightarrow> Inr (home, away)))
      | PStr s \<Rightarrow>
          (case split_on CHR ''-'' s of
             [home_str, away_str] \<Rightarrow>
               (case int_of_str home_str of
                  None \<Rightarrow> Inr (0, 0)
                | Some home \<Rightarrow>
                    (case int_of_str away_str of
                       None \<Rightarrow> Inr (0, 0)
                     | Some away \<Rightarrow> Inr (home, away)))
           | _ \<Rightarrow> Inr (0, 0))
      | _ \<Rightarrow> Inr (0, 0))"

definition parse_score :: "pyval \<Rightarrow> py_error + (int \<times> int)" where
  "parse_score score =
     parse_fulltime (case score of PDict d \<Rightarrow> dget d ''fulltime'' | _ \<Rightarrow> score)"

section \<open>Dictionaries keyed by values\<close>

text \<open>
  The accumulators of the routes are \<^verbatim>\<open>defaultdict\<close>s keyed by a value read from a
  document. A Python dictionary keeps its keys in insertion order, so it is an association
  list here, new keys going to the end. A list or a dictionary is not hashable and cannot
  be a key (\<^verbatim>\<open>TypeError\<close>). Python compares keys with \<^verbatim>\<open>==\<close>, under which \<^verbatim>\<open>True\<close>
  is \<^verbatim>\<open>1\<close> and \<^verbatim>\<open>False\<close> is \<^verbatim>\<open>0\<close>; \<open>key_norm\<close> maps a key to the representative
  it is compared by.
\<close>

fun hashable :: "pyval \<Rightarrow> bool" where
  "hashable (PList xs) = False"
| "hashable (PDict kvs) = False"
| "hashable v = True"

fun key_norm :: "pyval \<Rightarrow> pyval" where
  "key_norm (PBool b) = PInt (if b then 1 else 0)"
| "key_norm v = v"

type_synonym 'v pydict = "(pyval \<times> 'v) list"

fun dd_lookup :: "'v pydict \<Rightarrow> pyval \<Rightarrow> 'v option" where
  "dd_lookup [] k = None"
| "dd_lookup ((k', v) # kvs) k =
     (if key_norm k' = key_norm k then Some v else dd_lookup kvs k)"

text \<open>
  \<^verbatim>\<open>d[k]\<close> on a \<^verbatim>\<open>defaultdict\<close> inserts the default under a key that is missing
  (\<open>dd_touch\<close>). The routes then mutate the object stored under the key in place:
  \<open>dd_modify f k\<close> is that mutation, applied to the one entry \<open>k\<close> reaches. Two
  variables bound to the entry of the same key are the same object, and mutations through
  either land in the same entry.
\<close>

definition dd_touch :: "'v \<Rightarrow> pyval \<Rightarrow> 'v pydict \<Rightarrow> 'v pydict" where
  "dd_touch dflt k kvs = (case dd_lookup kvs k of None \<Rightarrow> kvs @ [(k, dflt)] | Some v \<Rightarrow> kvs)"

fun dd_modify :: "('v \<Rightarrow> 'v) \<Rightarrow> pyval \<Rightarrow> 'v pydict \<Rightarrow> 'v pydict" where
  "dd_modify f k [] = []"
| "dd_modify f k ((k', v) # kvs) =
     (if key_norm k' = key_norm k then (k', f v) # kvs else (k', v) # dd_modify f k kvs)"

section \<open>Standings builder\<close>

text \<open>The dataclass \<^verbatim>\<open>TeamStanding\<close> (lines 15 to 30) with its two computed properties.\<close>

record TeamStanding =
  played :: int
  wins :: int
  draws :: int
  losses :: int
  goals_for :: int
  goals_against :: int

definition new_standing :: TeamStanding where
  "new_standing = \<lparr>played = 0, wins = 0, draws = 0, losses = 0, goals_for = 0, goals_against = 0\<rparr>"

definition goal_diff :: "TeamStanding \<Rightarrow> int" where
  "goal_diff r = goals_for r - goals_against r"

definition points :: "TeamStanding \<Rightarrow> int" where
  "points r = wins r * 3 + draws r"

text \<open>
  Lines 54 to 68: the mutations of \<^verbatim>\<open>home_row\<close> and \<^verbatim>\<open>away_row\<close>, in the order of the
  source. Both rows are in the dictionary when this runs.
\<close>

definition record_result ::
  "pyval \<Rightarrow> pyval \<Rightarrow> int \<Rightarrow> int \<Rightarrow> TeamStanding pydict \<Rightarrow> TeamStanding pydict" where
  "record_result home away home_goals away_goals s0 =
     (let s1 = dd_modify (\<lambda>r. r\<lparr>played := played r + 1\<rparr>) home s0;
          s2 = dd_modify (\<lambda>r. r\<lparr>played := played r + 1\<rparr>) away s1;
          s3 = dd_modify (\<lambda>r. r\<lparr>goals_for := goals_for r + home_goals\<rparr>) home s2;
          s4 = dd_modify (\<lambda>r. r\<lparr>goals_against := goals_against r + away_goals\<rparr>) home s3;
          s5 = dd_modify (\<lambda>r. r\<lparr>goals_for := goals_for r + away_goals\<rparr>) away s4;
          s6 = dd_modify (\<lambda>r. r\<lparr>goals_against := goals_against r + home_goals\<rparr>) away s5
      in if home_goals > away_goals then
           dd_modify (\<lambda>r. r\<lparr>losses := losses r + 1\<rparr>) away
             (dd_modify (\<lambda>r. r\<lparr>wins := wins r + 1\<rparr>) home s6)
         else if home_goals < away_goals then
           dd_modify (\<lambda>r. r\<lparr>losses := losses r + 1\<rparr>) home
             (dd_modify (\<lambda>r. r\<lparr>wins := wins r + 1\<rparr>) away s6)
         else
           dd_modify (\<lambda>r. r\<lparr>draws := draws r + 1\<rparr>) away
             (dd_modify (\<lambda>r. r\<lparr>draws := draws r + 1\<rparr>) home s6))"

text \<open>
  The body of the loop, lines 47 to 68, for one match. The score is extracted before the
  test for a missing team id, as in the source, so an exception of \<^verbatim>\<open>parse_score\<close>
  ends the loop for a match that would have been skipped, too.
\<close>

definition standings_match ::
  "doc \<Rightarrow> TeamStanding pydict \<Rightarrow> py_error + TeamStanding pydict" where
  "standings_match match standings =
     (let home = dget match ''home_team_id'';
          away = dget match ''away_team_id''
      in case parse_score (dget_default match ''score'' (PDict [])) of
           Inl e \<Rightarrow> Inl e
         | Inr (home_goals, away_goals) \<Rightarrow>
             if home = PNone \<or> away = PNone then Inr standings
             else if \<not> hashable home then Inl TypeError
             else if \<not> hashable away then Inl TypeError
             else Inr (record_result home away home_goals away_goals
                        (dd_touch new_standing away (dd_touch new_standing home standings))))"

fun standings_loop ::
  "doc list \<Rightarrow> TeamStanding pydict \<Rightarrow> py_error + TeamStanding pydict" where
  "standings_loop [] standings = Inr standings"
| "standings_loop (match # matches) standings =
     (case standings_match match standings of
        Inl e \<Rightarrow> Inl e
      | Inr standings' \<Rightarrow> standings_loop matches standings')"

text \<open>
  Lines 70 to 84: one row per entry of the dictionary, in its order, then the sort.
  \<^verbatim>\<open>list.sort\<close> is stable and compares the key tuples lexicographically, which is the
  order of triples here; \<open>sort_key\<close> is a stable sort.
\<close>

record table_row =
  r_team_id :: pyval
  r_played :: int
  r_wins :: int
  r_draws :: int
  r_losses :: int
  r_goals_for :: int
  r_goals_against :: int
  r_goal_difference :: int
  r_points :: int

definition table_rows :: "TeamStanding pydict \<Rightarrow> table_row list" where
  "table_rows standings =
     map (\<lambda>(team_id, row).
            \<lparr>r_team_id = team_id, r_played = played row, r_wins = wins row,
             r_draws = draws row, r_losses = losses row, r_goals_for = goals_for row,
             r_goals_against = goals_against row, r_goal_difference = goal_diff row,
             r_points = points row\<rparr>)
         standings"

definition table_key :: "table_row \<Rightarrow> int \<times> int \<times> int" where
  "table_key r = (- r_points r, - r_goal_difference r, - r_goals_for r)"

definition sort_table :: "table_row list \<Rightarrow> table_row list" where
  "sort_table table = sort_key table_key table"

text \<open>The table computed from the matches the query returned, lines 44 to 84.\<close>

definition build_table :: "doc list \<Rightarrow> py_error + table_row list" where
  "build_table matches =
     (case standings_loop matches [] of
        Inl e \<Rightarrow> Inl e
      | Inr standings \<Rightarrow> Inr (sort_table (table_rows standings)))"

section \<open>Requests, responses and the document store\<close>

text \<open>
  \<^verbatim>\<open>request.args.get(k)\<close> is a string or \<^verbatim>\<open>None\<close>. A response is a JSON body with
  its status; \<^verbatim>\<open>jsonify\<close> alone answers with status 200. \<^verbatim>\<open>error_response\<close> is the
  function of \<^verbatim>\<open>app/utils.py\<close>, always called without \<^verbatim>\<open>details\<close> here.
\<close>

type_synonym args = "(string \<times> string) list"

type_synonym response = "pyval \<times> nat"

definition args_get :: "args \<Rightarrow> string \<Rightarrow> pyval" where
  "args_get args k = (case map_of args k of None \<Rightarrow> PNone | Some s \<Rightarrow> PStr s)"

definition args_get_default :: "args \<Rightarrow> string \<Rightarrow> pyval \<Rightarrow> pyval" where
  "args_get_default args k dflt = (case map_of args k of None \<Rightarrow> dflt | Some s \<Rightarrow> PStr s)"

definition jsonify :: "pyval \<Rightarrow> response" where
  "jsonify body = (body, 200)"

definition error_response :: "string \<Rightarrow> string \<Rightarrow> nat \<Rightarrow> response" where
  "error_response code message status =
     (PDict [(''error'', PDict [(''code'', PStr code), (''message'', PStr message)])], status)"

text \<open>
  The document store is outside the repository. A route reaches it through
  \<^verbatim>\<open>collection(name).find(filter, projection)\<close>, optionally followed by
  \<^verbatim>\<open>.sort(...)\<close> and \<^verbatim>\<open>.limit(...)\<close>; one such read is a \<open>db_call\<close>, and the store
  is a parameter of every route: a function from the read to the documents it yields.
  A route returns the reads it issued, in order, next to its outcome.
\<close>

datatype db_call =
  Find (coll: string) (filter_doc: pyval) (projection: "pyval option")
       (sort_spec: "(string \<times> int) list") (limit_arg: "int option")

type_synonym database = "db_call \<Rightarrow> doc list"

type_synonym outcome = "db_call list \<times> (py_error + response)"

text \<open>The route \<^verbatim>\<open>league_table\<close>, lines 33 to 86.\<close>

definition row_json :: "table_row \<Rightarrow> pyval" where
  "row_json r =
     PDict [(''team_id'', r_team_id r), (''played'', PInt (r_played r)),
            (''wins'', PInt (r_wins r)), (''draws'', PInt (r_draws r)),
            (''losses'', PInt (r_losses r)), (''goals_for'', PInt (r_goals_for r)),
            (''goals_against'', PInt (r_goals_against r)),
            (''goal_difference'', PInt (r_goal_difference r)),
            (''points'', PInt (r_points r))]"

definition league_table :: "database \<Rightarrow> args \<Rightarrow> outcome" where
  "league_table db args =
     (let competition = args_get args ''competition'';
          season = args_get args ''season''
      in if \<not> truthy competition \<or> \<not> truthy season then
           ([], Inr (error_response ''VALIDATION_ERROR''
                      ''competition and season are required'' 422))
         else
           let query = PDict [(''competition_id'', competition), (''season_id'', season)];
               call = Find ''matches'' query None [] None
           in case build_table (db call) of
                Inl e \<Rightarrow> ([call], Inl e)
              | Inr table \<Rightarrow>
                  ([call], Inr (jsonify (PDict [(''competition_id'', competition),
                                               (''season_id'', season),
                                               (''table'', PList (map row_json table))]))))"

section \<open>Leaderboard builder\<close>

text \<open>
  \<^verbatim>\<open>for event in match.get("events", [])\<close> iterates whatever the field holds: the
  elements of a list, the characters of a string, the keys of a dictionary; any other
  value is not iterable.
\<close>

fun dict_keys :: "doc \<Rightarrow> string list" where
  "dict_keys [] = []"
| "dict_keys ((k, v) # kvs) = k # filter (\<lambda>k'. k' \<noteq> k) (dict_keys kvs)"

fun iter_values :: "pyval \<Rightarrow> py_error + pyval list" where
  "iter_values (PList xs) = Inr xs"
| "iter_values (PStr s) = Inr (map (\<lambda>c. PStr [c]) s)"
| "iter_values (PDict kvs) = Inr (map PStr (dict_keys kvs))"
| "iter_values v = Inl TypeError"

text \<open>
  Lines 106 and 107 for one event. \<^verbatim>\<open>event.get\<close> exists on a dictionary only. The
  condition is \<^verbatim>\<open>event.get("type") == "goal" and event.get("player_id")\<close>: the second
  conjunct is the truthiness of the player id.
\<close>

definition is_goal_event :: "doc \<Rightarrow> bool" where
  "is_goal_event e = (dget e ''type'' = PStr ''goal'' \<and> truthy (dget e ''player_id''))"

definition count_event :: "pyval \<Rightarrow> int pydict \<Rightarrow> py_error + int pydict" where
  "count_event event goal_counts =
     (case event of
        PDict e \<Rightarrow>
          if is_goal_event e then
            (let player_id = dget e ''player_id''
             in if hashable player_id then
                  Inr (dd_modify (\<lambda>n. n + 1) player_id (dd_touch 0 player_id goal_counts))
                else Inl TypeError)
          else Inr goal_counts
      | _ \<Rightarrow> Inl AttributeError)"

fun count_events :: "pyval list \<Rightarrow> int pydict \<Rightarrow> py_error + int pydict" where
  "count_events [] goal_counts = Inr goal_counts"
| "count_events (event # events) goal_counts =
     (case count_event event goal_counts of
        Inl e \<Rightarrow> Inl e
      | Inr goal_counts' \<Rightarrow> count_events events goal_counts')"

fun count_goals :: "doc list \<Rightarrow> int pydict \<Rightarrow> py_error + int pydict" where
  "count_goals [] goal_counts = Inr goal_counts"
| "count_goals (match # matches) goal_counts =
     (case iter_values (dget_default match ''events'' (PList [])) of
        Inl e \<Rightarrow> Inl e
      | Inr events \<Rightarrow>
          (case count_events events goal_counts of
             Inl e \<Rightarrow> Inl e
           | Inr goal_counts' \<Rightarrow> count_goals matches goal_counts'))"

text \<open>
  Lines 113 to 115: the dictionary comprehension over the player documents. A later
  document replaces the value of an equal key and keeps the key's place.
\<close>

definition dd_set :: "pyval \<Rightarrow> 'v \<Rightarrow> 'v pydict \<Rightarrow> 'v pydict" where
  "dd_set k v kvs =
     (case dd_lookup kvs k of None \<Rightarrow> kvs @ [(k, v)] | Some old \<Rightarrow> dd_modify (\<lambda>old. v) k kvs)"

fun index_players :: "doc list \<Rightarrow> doc pydict \<Rightarrow> py_error + doc pydict" where
  "index_players [] player_docs = Inr player_docs"
| "index_players (d # ds) player_docs =
     (case map_of d ''_id'' of
        None \<Rightarrow> Inl KeyError
      | Some k \<Rightarrow>
          if hashable k then index_players ds (dd_set k d player_docs) else Inl TypeError)"

record leader_row =
  l_player_id :: pyval
  l_name :: pyval
  l_goals :: int

definition leader_json :: "leader_row \<Rightarrow> pyval" where
  "leader_json r =
     PDict [(''player_id'', l_player_id r), (''name'', l_name r), (''goals'', PInt (l_goals r))]"

definition leader_rows :: "doc pydict \<Rightarrow> int pydict \<Rightarrow> leader_row list" where
  "leader_rows player_docs goal_counts =
     map (\<lambda>(player_id, goals).
            \<lparr>l_player_id = player_id,
             l_name = dget (case dd_lookup player_docs player_id of None \<Rightarrow> [] | Some d \<Rightarrow> d)
                        ''name'',
             l_goals = goals\<rparr>)
         goal_counts"

text \<open>
  \<^verbatim>\<open>xs.sort(key=f, reverse=True)\<close> is a stable sort into descending order of the key:
  rows with equal keys keep their order. \<^verbatim>\<open>xs[:n]\<close> keeps the first \<open>n\<close> elements, and
  all but the last \<open>-n\<close> for a negative \<open>n\<close>.
\<close>

definition sort_desc :: "('a \<Rightarrow> int) \<Rightarrow> 'a list \<Rightarrow> 'a list" where
  "sort_desc f xs = sort_key (\<lambda>x. - f x) xs"

definition slice_to :: "int \<Rightarrow> 'a list \<Rightarrow> 'a list" where
  "slice_to n xs = (if 0 \<le> n then take (nat n) xs else take (length xs - nat (- n)) xs)"

text \<open>The route \<^verbatim>\<open>top_scorers\<close>, lines 89 to 125.\<close>

definition scope_query :: "pyval \<Rightarrow> pyval \<Rightarrow> pyval" where
  "scope_query competition season =
     PDict ((if truthy competition then [(''competition_id'', competition)] else [])
            @ (if truthy season then [(''season_id'', season)] else []))"

definition top_scorers :: "database \<Rightarrow> args \<Rightarrow> outcome" where
  "top_scorers db args =
     (let competition = args_get args ''competition'';
          season = args_get args ''season''
      in case py_int (args_get_default args ''limit'' (PInt 20)) of
           Inl e \<Rightarrow> ([], Inl e)
         | Inr limit \<Rightarrow>
             let matches_call = Find ''matches'' (scope_query competition season)
                                  (Some (PDict [(''events'', PInt 1)])) [] None
             in case count_goals (db matches_call) [] of
                  Inl e \<Rightarrow> ([matches_call], Inl e)
                | Inr goal_counts \<Rightarrow>
                    if goal_counts = [] then
                      ([matches_call], Inr (jsonify (PDict [(''leaders'', PList [])])))
                    else
                      let players_call =
                            Find ''players''
                              (PDict [(''_id'', PDict [(''$in'', PList (map fst goal_counts))])])
                              (Some (PDict [(''name'', PInt 1)])) [] None
                      in case index_players (db players_call) [] of
                           Inl e \<Rightarrow> ([matches_call, players_call], Inl e)
                         | Inr player_docs \<Rightarrow>
                             ([matches_call, players_call],
                              Inr (jsonify (PDict [(''leaders'',
                                PList (map leader_json
                                  (slice_to limit
                                    (sort_desc l_goals
                                      (leader_rows player_docs goal_counts)))))]))))"

section \<open>Streak analyzer\<close>

text \<open>\<^verbatim>\<open>result_symbol\<close> and \<^verbatim>\<open>longest_streak\<close>, lines 203 to 219.\<close>

definition result_symbol :: "int \<Rightarrow> int \<Rightarrow> string" where
  "result_symbol goals_for' goals_against' =
     (if goals_for' > goals_against' then ''W''
      else if goals_for' < goals_against' then ''L''
      else ''D'')"

fun streak_scan :: "string list \<Rightarrow> string \<Rightarrow> int \<Rightarrow> int \<Rightarrow> int" where
  "streak_scan [] target longest current = longest"
| "streak_scan (v # sequence) target longest current =
     (if v = target then streak_scan sequence target (max longest (current + 1)) (current + 1)
      else streak_scan sequence target longest 0)"

definition longest_streak :: "string list \<Rightarrow> string \<Rightarrow> int" where
  "longest_streak sequence target = streak_scan sequence target 0 0"

text \<open>
  The body of the loop of \<^verbatim>\<open>streaks\<close>, lines 146 to 156, for one match.
  \<^verbatim>\<open>team_results[home].append(x)\<close> inserts the empty list under a new key and extends the
  list stored there.
\<close>

definition clean_symbol :: "int \<Rightarrow> string" where
  "clean_symbol opponent_goals = (if opponent_goals = 0 then ''C'' else ''N'')"

definition dd_append :: "pyval \<Rightarrow> 'a \<Rightarrow> 'a list pydict \<Rightarrow> 'a list pydict" where
  "dd_append k x team_results = dd_modify (\<lambda>xs. xs @ [x]) k (dd_touch [] k team_results)"

definition streak_match ::
  "pyval \<Rightarrow> doc \<Rightarrow> string list pydict \<Rightarrow> py_error + string list pydict" where
  "streak_match streak_type match team_results =
     (let home = dget match ''home_team_id'';
          away = dget match ''away_team_id''
      in case parse_score (dget_default match ''score'' (PDict [])) of
           Inl e \<Rightarrow> Inl e
         | Inr (home_goals, away_goals) \<Rightarrow>
             if home = PNone \<or> away = PNone then Inr team_results
             else if \<not> hashable home then Inl TypeError
             else if \<not> hashable away then Inl TypeError
             else if streak_type = PStr ''clean_sheet'' then
               Inr (dd_append away (clean_symbol home_goals)
                     (dd_append home (clean_symbol away_goals) team_results))
             else
               Inr (dd_append away (result_symbol away_goals home_goals)
                     (dd_append home (result_symbol home_goals away_goals) team_results)))"

fun streak_loop ::
  "pyval \<Rightarrow> doc list \<Rightarrow> string list pydict \<Rightarrow> py_error + string list pydict" where
  "streak_loop streak_type [] team_results = Inr team_results"
| "streak_loop streak_type (match # matches) team_results =
     (case streak_match streak_type match team_results of
        Inl e \<Rightarrow> Inl e
      | Inr team_results' \<Rightarrow> streak_loop streak_type matches team_results')"

record streak_row =
  s_team_id :: pyval
  s_streak :: int

definition streak_json :: "streak_row \<Rightarrow> pyval" where
  "streak_json r = PDict [(''team_id'', s_team_id r), (''streak'', PInt (s_streak r))]"

definition streak_target :: "pyval \<Rightarrow> string" where
  "streak_target streak_type =
     (if streak_type = PStr ''win'' then ''W''
      else if streak_type = PStr ''loss'' then ''L''
      else ''C'')"

definition streak_rows :: "pyval \<Rightarrow> string list pydict \<Rightarrow> streak_row list" where
  "streak_rows streak_type team_results =
     map (\<lambda>(team_id, results).
            \<lparr>s_team_id = team_id,
             s_streak = longest_streak results (streak_target streak_type)\<rparr>)
         team_results"

text \<open>The route \<^verbatim>\<open>streaks\<close>, lines 128 to 165.\<close>

definition streaks :: "database \<Rightarrow> args \<Rightarrow> outcome" where
  "streaks db args =
     (let competition = args_get args ''competition'';
          season = args_get args ''season'';
          streak_type = args_get args ''type''
      in if streak_type \<notin> {PStr ''win'', PStr ''loss'', PStr ''clean_sheet''} then
           ([], Inr (error_response ''VALIDATION_ERROR''
                      ''type must be win, loss, or clean_sheet'' 422))
         else
           let call = Find ''matches'' (scope_query competition season) None
                        [(''date'', 1)] None
           in case streak_loop streak_type (db call) [] of
                Inl e \<Rightarrow> ([call], Inl e)
              | Inr team_results \<Rightarrow>
                  ([call], Inr (jsonify (PDict [(''type'', streak_type),
                     (''streaks'',
                      PList (map streak_json
                        (sort_desc s_streak (streak_rows streak_type team_results))))]))))"

section \<open>Head-to-head summarizer\<close>

text \<open>\<^verbatim>\<open>serialize_match\<close>, lines 222 to 231, and the route \<^verbatim>\<open>head_to_head\<close>.\<close>

definition serialize_match :: "doc \<Rightarrow> doc" where
  "serialize_match d =
     [(''_id'', dget d ''_id''), (''date'', dget d ''date''),
      (''competition_id'', dget d ''competition_id''), (''season_id'', dget d ''season_id''),
      (''home_team_id'', dget d ''home_team_id''), (''away_team_id'', dget d ''away_team_id''),
      (''score'', dget d ''score'')]"

definition h2h_query :: "pyval \<Rightarrow> pyval \<Rightarrow> pyval" where
  "h2h_query team_a team_b =
     PDict [(''$or'',
       PList [PDict [(''home_team_id'', team_a), (''away_team_id'', team_b)],
              PDict [(''home_team_id'', team_b), (''away_team_id'', team_a)]])]"

definition head_to_head :: "database \<Rightarrow> args \<Rightarrow> outcome" where
  "head_to_head db args =
     (let team_a = args_get args ''team_a'';
          team_b = args_get args ''team_b''
      in case py_int (args_get_default args ''limit'' (PInt 20)) of
           Inl e \<Rightarrow> ([], Inl e)
         | Inr limit \<Rightarrow>
             if \<not> truthy team_a \<or> \<not> truthy team_b then
               ([], Inr (error_response ''VALIDATION_ERROR''
                          ''team_a and team_b are required'' 422))
             else
               let call = Find ''matches'' (h2h_query team_a team_b) None
                            [(''date'', -1)] (Some limit)
               in ([call], Inr (jsonify (PDict [(''team_a'', team_a), (''team_b'', team_b),
                     (''matches'', PList (map (PDict \<circ> serialize_match) (db call)))]))))"

section \<open>The standings the specification describes\<close>

text \<open>
  The specification's rule for one side of one match, written from its words: the side
  has played once more, its goals for and against grow by the goals scored and conceded,
  and it gets a win when it scored more, a loss when it scored less, a draw otherwise.
  \<open>spec_match_row\<close> applies the rule to a team's row for the home side and for the
  away side of a match, and \<open>spec_standing\<close> runs it over the matches, from the zero
  row. A team is identified up to the equality of dictionary keys.
\<close>

definition spec_side :: "int \<Rightarrow> int \<Rightarrow> TeamStanding \<Rightarrow> TeamStanding" where
  "spec_side scored conceded r =
     r\<lparr>played := played r + 1,
       wins := wins r + (if scored > conceded then 1 else 0),
       draws := draws r + (if scored = conceded then 1 else 0),
       losses := losses r + (if scored < conceded then 1 else 0),
       goals_for := goals_for r + scored,
       goals_against := goals_against r + conceded\<rparr>"

definition spec_teams :: "pyval \<Rightarrow> pyval \<Rightarrow> int \<Rightarrow> int \<Rightarrow> pyval \<Rightarrow> TeamStanding \<Rightarrow> TeamStanding"
  where
  "spec_teams home away hg ag team r =
     (if key_norm team = key_norm away then spec_side ag hg else id)
       ((if key_norm team = key_norm home then spec_side hg ag else id) r)"

definition spec_match_row :: "doc \<Rightarrow> pyval \<Rightarrow> TeamStanding \<Rightarrow> TeamStanding" where
  "spec_match_row match team r =
     (case parse_score (dget_default match ''score'' (PDict [])) of
        Inl e \<Rightarrow> r
      | Inr (hg, ag) \<Rightarrow>
          spec_teams (dget match ''home_team_id'') (dget match ''away_team_id'') hg ag team r)"

definition spec_standing :: "doc list \<Rightarrow> pyval \<Rightarrow> TeamStanding" where
  "spec_standing matches team = fold (\<lambda>match. spec_match_row match team) matches new_standing"

text \<open>
  The matches the standings builder and the streak analyzer are specified for: both team
  ids are present and are identifiers (hashable values, as the strings of the data model
  are), and score extraction returns a pair.
\<close>

definition has_teams :: "doc \<Rightarrow> bool" where
  "has_teams match =
     (dget match ''home_team_id'' \<noteq> PNone \<and> dget match ''away_team_id'' \<noteq> PNone
      \<and> hashable (dget match ''home_team_id'') \<and> hashable (dget match ''away_team_id''))"

definition score_ok :: "doc \<Rightarrow> bool" where
  "score_ok match =
     (case parse_score (dget_default match ''score'' (PDict [])) of
        Inl e \<Rightarrow> False
      | Inr p \<Rightarrow> True)"

definition row_of :: "TeamStanding pydict \<Rightarrow> pyval \<Rightarrow> TeamStanding" where
  "row_of standings team =
     (case dd_lookup standings team of None \<Rightarrow> new_standing | Some r \<Rightarrow> r)"

definition dd_distinct :: "'v pydict \<Rightarrow> bool" where
  "dd_distinct kvs = distinct (map (key_norm \<circ> fst) kvs)"

text \<open>
  A table row agrees with an accumulated standing when its six counters are the
  standing's and its goal difference and points are the computed ones.
\<close>

definition row_matches :: "table_row \<Rightarrow> TeamStanding \<Rightarrow> bool" where
  "row_matches row s =
     (r_played row = played s \<and> r_wins row = wins s \<and> r_draws row = draws s
      \<and> r_losses row = losses s \<and> r_goals_for row = goals_for s
      \<and> r_goals_against row = goals_against s
      \<and> r_goal_difference row = goals_for s - goals_against s
      \<and> r_points row = wins s * 3 + draws s)"

text \<open>
  The league table example of the specification: TeamX beats TeamY 3-1 at home, then
  draws 2-2 away. The first score is stored as a string, the second as a structured
  fulltime score.
\<close>

definition match_x_home :: doc where
  "match_x_home = [(''_id'', PStr ''m1''), (''home_team_id'', PStr ''TeamX''), (''away_team_id'', PStr ''TeamY''),
     (''score'', PStr ''3-1'')]"

definition match_y_home :: doc where
  "match_y_home = [(''_id'', PStr ''m2''), (''home_team_id'', PStr ''TeamY''), (''away_team_id'', PStr ''TeamX''),
     (''score'', PDict [(''fulltime'', PDict [(''home'', PInt 2), (''away'', PInt 2)])])]"

definition row_x :: table_row where
  "row_x = \<lparr>r_team_id = PStr ''TeamX'', r_played = 2, r_wins = 1, r_draws = 1, r_losses = 0,
     r_goals_for = 5, r_goals_against = 3, r_goal_difference = 2, r_points = 4\<rparr>"

definition row_y :: table_row where
  "row_y = \<lparr>r_team_id = PStr ''TeamY'', r_played = 2, r_wins = 0, r_draws = 1, r_losses = 1,
     r_goals_for = 3, r_goals_against = 5, r_goal_difference = - 2, r_points = 1\<rparr>"

text \<open>
  The order of the league table in the specification's words: a row comes before another
  when it has more points, or the same points and a larger goal difference, or the same
  of both and at least as many goals for. \<open>tied_at\<close> selects the rows tied on all
  three keys, and \<open>balanced\<close> is the identity between the matches played and their
  outcomes. \<open>draw_match\<close> is a 1-1 draw between two teams, \<open>draw_row\<close> the row of a
  team whose only match was such a draw.
\<close>

definition balanced :: "TeamStanding \<Rightarrow> bool" where
  "balanced r = (played r = wins r + draws r + losses r)"

definition ranked_before :: "table_row \<Rightarrow> table_row \<Rightarrow> bool" where
  "ranked_before r s =
     (r_points r > r_points s
      \<or> (r_points r = r_points s
          \<and> (r_goal_difference r > r_goal_difference s
              \<or> (r_goal_difference r = r_goal_difference s \<and> r_goals_for r \<ge> r_goals_for s))))"

definition tied_at :: "int \<Rightarrow> int \<Rightarrow> int \<Rightarrow> table_row \<Rightarrow> bool" where
  "tied_at p gd gf r = (r_points r = p \<and> r_goal_difference r = gd \<and> r_goals_for r = gf)"

definition draw_match :: "string \<Rightarrow> string \<Rightarrow> doc" where
  "draw_match h a = [(''home_team_id'', PStr h), (''away_team_id'', PStr a), (''score'', PStr ''1-1'')]"

definition draw_row :: "string \<Rightarrow> table_row" where
  "draw_row t = \<lparr>r_team_id = PStr t, r_played = 1, r_wins = 0, r_draws = 1, r_losses = 0,
     r_goals_for = 1, r_goals_against = 1, r_goal_difference = 0, r_points = 1\<rparr>"

text \<open>
  A sequence has a run of length \<open>n\<close> of a symbol when \<open>n\<close> consecutive elements of
  it are that symbol: \<open>sublist xs ys\<close> says that \<open>ys\<close> is some elements, then \<open>xs\<close>,
  then some elements. \<open>results_of\<close> reads a team's sequence in the accumulator of the
  streak analyzer, the empty sequence for a team not seen yet. \<open>played_match\<close> is a
  match between two teams with its score stored as a string.
\<close>

definition has_run :: "string list \<Rightarrow> string \<Rightarrow> nat \<Rightarrow> bool" where
  "has_run sequence target n = sublist (replicate n target) sequence"

definition results_of :: "string list pydict \<Rightarrow> pyval \<Rightarrow> string list" where
  "results_of team_results team =
     (case dd_lookup team_results team of None \<Rightarrow> [] | Some xs \<Rightarrow> xs)"

definition played_match :: "string \<Rightarrow> string \<Rightarrow> string \<Rightarrow> doc" where
  "played_match h a s = [(''home_team_id'', PStr h), (''away_team_id'', PStr a), (''score'', PStr s)]"

text \<open>
  A match document with both team ids whose structured score has a home value that is not
  a number, the same without a home team id, and request arguments for a league table.
\<close>

definition match_bad_score :: doc where
  "match_bad_score =
     [(''_id'', PStr ''m9''), (''home_team_id'', PStr ''TeamX''),
      (''away_team_id'', PStr ''TeamY''),
      (''score'', PDict [(''fulltime'', PDict [(''home'', PStr ''x''), (''away'', PInt 1)])])]"

definition match_without_home :: doc where
  "match_without_home =
     [(''_id'', PStr ''m0''), (''away_team_id'', PStr ''TeamY''),
      (''score'', PDict [(''fulltime'', PDict [(''home'', PStr ''x''), (''away'', PInt 1)])])]"

definition league_args :: args where
  "league_args = [(''competition'', ''pl''), (''season'', ''2024'')]"

text \<open>
  The team ids of a match are usable when the loop body does not fail on them: one of
  them is missing, which skips the match, or both are hashable. The three values of the
  \<^verbatim>\<open>type\<close> parameter the specification allows, the read the streak analyzer issues,
  and the three matches of the specification's streak example.
\<close>

definition ids_usable :: "doc \<Rightarrow> bool" where
  "ids_usable match =
     (dget match ''home_team_id'' = PNone \<or> dget match ''away_team_id'' = PNone
      \<or> (hashable (dget match ''home_team_id'') \<and> hashable (dget match ''away_team_id'')))"

definition valid_streak_type :: "pyval \<Rightarrow> bool" where
  "valid_streak_type t = (t = PStr ''win'' \<or> t = PStr ''loss'' \<or> t = PStr ''clean_sheet'')"

definition streaks_call :: "args \<Rightarrow> db_call" where
  "streaks_call args =
     Find ''matches'' (scope_query (args_get args ''competition'') (args_get args ''season''))
       None [(''date'', 1)] None"

definition three_matches :: "doc list" where
  "three_matches =
     [played_match ''A'' ''B'' ''2-0'', played_match ''A'' ''B'' ''1-1'',
      played_match ''A'' ''B'' ''0-3'']"

text \<open>
  The leaderboard in the specification's words. The events of a match are the elements of
  its \<^verbatim>\<open>events\<close> field. A goal event is an event whose type equals \<^verbatim>\<open>"goal"\<close> and whose
  player id is non-empty, that is, truthy: a string other than the empty one; \<^verbatim>\<open>None\<close>
  and a missing id are empty. \<open>goals_of\<close> is the number of goal events of a player in a
  set of matches. The events of a match are well-formed when the field is iterable and
  each event is a dictionary whose player id could be a dictionary key (an identifier or
  \<^verbatim>\<open>None\<close>). \<open>goals_counted\<close> reads a player's counter, zero when there is none, and
  \<open>scorers_call\<close> is the read of the matches the route issues.
\<close>

definition events_of :: "doc \<Rightarrow> pyval list" where
  "events_of match =
     (case iter_values (dget_default match ''events'' (PList [])) of
        Inl e \<Rightarrow> []
      | Inr events \<Rightarrow> events)"

definition goal_event :: "pyval \<Rightarrow> bool" where
  "goal_event event =
     (case event of
        PDict e \<Rightarrow> dget e ''type'' = PStr ''goal'' \<and> truthy (dget e ''player_id'')
      | _ \<Rightarrow> False)"

definition scored_by :: "pyval \<Rightarrow> pyval \<Rightarrow> bool" where
  "scored_by player event =
     (case event of
        PDict e \<Rightarrow> goal_event event \<and> key_norm (dget e ''player_id'') = key_norm player
      | _ \<Rightarrow> False)"

definition goals_of :: "pyval \<Rightarrow> doc list \<Rightarrow> int" where
  "goals_of player matches =
     int (length (filter (scored_by player) (concat (map events_of matches))))"

definition event_ok :: "pyval \<Rightarrow> bool" where
  "event_ok event = (case event of PDict e \<Rightarrow> hashable (dget e ''player_id'') | _ \<Rightarrow> False)"

definition events_ok :: "doc \<Rightarrow> bool" where
  "events_ok match =
     (case iter_values (dget_default match ''events'' (PList [])) of
        Inl e \<Rightarrow> False
      | Inr events \<Rightarrow> list_all event_ok events)"

definition goals_counted :: "int pydict \<Rightarrow> pyval \<Rightarrow> int" where
  "goals_counted goal_counts player =
     (case dd_lookup goal_counts player of None \<Rightarrow> 0 | Some n \<Rightarrow> n)"

definition scorers_call :: "args \<Rightarrow> db_call" where
  "scorers_call args =
     Find ''matches'' (scope_query (args_get args ''competition'') (args_get args ''season''))
       (Some (PDict [(''events'', PInt 1)])) [] None"

text \<open>
  A match with five events, two of them goal events of player \<open>p1\<close>, and a match with no
  goal event.
\<close>

definition scoring_match :: doc where
  "scoring_match =
     [(''_id'', PStr ''m1''),
      (''events'',
       PList [PDict [(''type'', PStr ''goal''), (''player_id'', PStr ''p1'')],
              PDict [(''type'', PStr ''goal''), (''player_id'', PStr '''')],
              PDict [(''type'', PStr ''card''), (''player_id'', PStr ''p1'')],
              PDict [(''type'', PStr ''goal''), (''player_id'', PStr ''p1'')],
              PDict [(''type'', PStr ''goal'')]])]"

definition quiet_match :: doc where
  "quiet_match =
     [(''_id'', PStr ''m2''),
      (''events'', PList [PDict [(''type'', PStr ''card''), (''player_id'', PStr ''p1'')]])]"

section \<open>The storage collaborator\<close>

text \<open>
  Modelled from the spec: the filter of the storage collaborator's
  \<^verbatim>\<open>find_matches(filter)\<close>, which is outside the repository. A filter gives a value
  for each of its keys (competition id, season id, home and away team id), and a document
  passes when each of these fields holds the value given for it.
\<close>

definition fields_match :: "doc \<Rightarrow> doc \<Rightarrow> bool" where
  "fields_match d conds = list_all (\<lambda>(k, v). dget d k = v) conds"

text \<open>
  Modelled from the spec: the filter of \<^verbatim>\<open>find_matches(filter)\<close> with OR semantics,
  which is outside the repository. Under the key \<^verbatim>\<open>$or\<close> a filter lists alternatives,
  and a document passes that key when it passes one of them.
\<close>

definition satisfies :: "doc \<Rightarrow> pyval \<Rightarrow> bool" where
  "satisfies d query =
     (case query of
        PDict conds \<Rightarrow>
          list_all (\<lambda>(k, v).
              if k = ''$or'' then
                (case v of
                   PList alts \<Rightarrow>
                     list_ex (\<lambda>alt. case alt of PDict cs \<Rightarrow> fields_match d cs | _ \<Rightarrow> False) alts
                 | _ \<Rightarrow> False)
              else dget d k = v)
            conds
      | _ \<Rightarrow> False)"

text \<open>
  Modelled from the spec: the storage collaborator's \<^verbatim>\<open>find_matches(filter)\<close> with a
  sort order and a limit, which is outside the repository: select the matches that pass
  the filter, sort them by the date field in the direction asked for (\<open>-1\<close> is
  descending), take the first \<open>limit\<close>. How the store orders the values of a date field
  is its parameter \<open>stamp\<close>, the position of a date value in time. Among matches of
  equal date the specification asks for no order; the sort here keeps the stored one.
\<close>

definition find_matches :: "(pyval \<Rightarrow> int) \<Rightarrow> doc list \<Rightarrow> database" where
  "find_matches stamp docs call =
     (if coll call \<noteq> ''matches'' then []
      else
        let selected = filter (\<lambda>d. satisfies d (filter_doc call)) docs;
            ordered = (case sort_spec call of
                         [] \<Rightarrow> selected
                       | (field, direction) # rest \<Rightarrow>
                           sort_key (\<lambda>d. direction * stamp (dget d field)) selected)
        in case limit_arg call of
             None \<Rightarrow> ordered
           | Some n \<Rightarrow> take (nat n) ordered)"

text \<open>
  The head-to-head summary in the specification's words: a match is between two teams
  when its home and away ids are the two teams in either order; a list is newest first
  when no match in it is older than one after it; the public fields of a match.
  \<open>h2h_call\<close> is the read the route issues. Then four stored matches, three of them
  between A and B, and a request for the newest two.
\<close>

definition between_teams :: "string \<Rightarrow> string \<Rightarrow> doc \<Rightarrow> bool" where
  "between_teams a b d =
     ((dget d ''home_team_id'' = PStr a \<and> dget d ''away_team_id'' = PStr b)
      \<or> (dget d ''home_team_id'' = PStr b \<and> dget d ''away_team_id'' = PStr a))"

definition newest_first :: "(pyval \<Rightarrow> int) \<Rightarrow> doc list \<Rightarrow> bool" where
  "newest_first stamp docs =
     sorted_wrt (\<lambda>d e. stamp (dget d ''date'') \<ge> stamp (dget e ''date'')) docs"

definition public_fields :: "string list" where
  "public_fields =
     [''_id'', ''date'', ''competition_id'', ''season_id'', ''home_team_id'',
      ''away_team_id'', ''score'']"

definition h2h_call :: "string \<Rightarrow> string \<Rightarrow> int \<Rightarrow> db_call" where
  "h2h_call a b limit =
     Find ''matches'' (h2h_query (PStr a) (PStr b)) None [(''date'', -1)] (Some limit)"

definition dated_match :: "string \<Rightarrow> int \<Rightarrow> string \<Rightarrow> string \<Rightarrow> doc" where
  "dated_match i t h a =
     [(''_id'', PStr i), (''date'', PInt t), (''home_team_id'', PStr h),
      (''away_team_id'', PStr a), (''score'', PStr ''1-0''), (''events'', PList [])]"

definition stored_matches :: "doc list" where
  "stored_matches =
     [dated_match ''m1'' 10 ''A'' ''B'', dated_match ''m2'' 30 ''B'' ''A'',
      dated_match ''m3'' 20 ''A'' ''C'', dated_match ''m4'' 40 ''A'' ''B'']"

definition int_stamp :: "pyval \<Rightarrow> int" where
  "int_stamp v = (case v of PInt t \<Rightarrow> t | _ \<Rightarrow> 0)"

definition h2h_args :: args where
  "h2h_args = [(''team_a'', ''A''), (''team_b'', ''B''), (''limit'', ''2'')]"

text \<open>
  Streak rows are in descending order when no row has a shorter streak than one after
  it; the request for a clean-sheet analysis.
\<close>

definition by_streak_desc :: "streak_row list \<Rightarrow> bool" where
  "by_streak_desc rows = sorted_wrt (\<lambda>r s. s_streak r \<ge> s_streak s) rows"

definition clean_sheet_args :: args where
  "clean_sheet_args = [(''type'', ''clean_sheet'')]"

text \<open>
  A player document is well-formed when it has an \<^verbatim>\<open>_id\<close> that could be a dictionary
  key. \<open>players_call\<close> is the read of the players the leaderboard route issues for the
  players it counted goals for. Leaders are in descending order when no row has fewer
  goals than one after it. \<open>scorers_store\<close> is a store with the two matches above and
  one player document.
\<close>

definition player_ok :: "doc \<Rightarrow> bool" where
  "player_ok d = (case map_of d ''_id'' of None \<Rightarrow> False | Some k \<Rightarrow> hashable k)"

definition players_call :: "int pydict \<Rightarrow> db_call" where
  "players_call goal_counts =
     Find ''players'' (PDict [(''_id'', PDict [(''$in'', PList (map fst goal_counts))])])
       (Some (PDict [(''name'', PInt 1)])) [] None"

definition by_goals_desc :: "leader_row list \<Rightarrow> bool" where
  "by_goals_desc rows = sorted_wrt (\<lambda>r s. l_goals r \<ge> l_goals s) rows"

definition scorers_store :: database where
  "scorers_store call =
     (if coll call = ''matches'' then [scoring_match, quiet_match]
      else [[(''_id'', PStr ''p1''), (''name'', PStr ''Ann'')]])"

section \<open>Properties\<close>

subsection \<open>Score extraction\<close>

lemma int_of_str_examples:
  "int_of_str ''2'' = Some 2" "int_of_str ''1'' = Some 1" "int_of_str ''x'' = None"
  by (simp_all add: int_of_str_def strip_def is_space_def unsigned_of_str_def digit_val_def
      max_str_digits_def)

text \<open>
  Score extraction raises only in the dictionary branch: when it fails, the fulltime value
  is a mapping.
\<close>

lemma parse_score_raises_in_mapping_only:
  assumes "parse_score score = Inl e"
  shows "\<exists>f. (case score of PDict d \<Rightarrow> dget d ''fulltime'' | _ \<Rightarrow> score) = PDict f"
proof -
  let ?fulltime = "case score of PDict d \<Rightarrow> dget d ''fulltime'' | _ \<Rightarrow> score"
  from assms have "parse_fulltime ?fulltime = Inl e" by (simp add: parse_score_def)
  then show ?thesis
    by (cases ?fulltime) (auto simp: parse_fulltime_def split: list.splits option.splits)
qed

text \<open>
  C1. Score extraction on the four inputs the specification lists: \<^verbatim>\<open>None\<close>,
  \<^verbatim>\<open>"2-1"\<close> and \<^verbatim>\<open>{"fulltime": "bad"}\<close> give the pairs it names, but on
  \<^verbatim>\<open>{"fulltime": {"home": 3, "away": "x"}}\<close> the conversion \<^verbatim>\<open>int("x")\<close> of
  line 192 raises \<^verbatim>\<open>ValueError\<close> and no pair is returned.
\<close>

theorem parse_score_spec_inputs:
  "parse_score PNone = Inr (0, 0)
   \<and> parse_score (PStr ''2-1'') = Inr (2, 1)
   \<and> parse_score (PDict [(''fulltime'', PStr ''bad'')]) = Inr (0, 0)
   \<and> parse_score (PDict [(''fulltime'', PDict [(''home'', PInt 3), (''away'', PStr ''x'')])])
       = Inl ValueError"
  by (simp add: parse_score_def parse_fulltime_def dget_def dget_default_def py_or_def
      int_of_str_examples)

text \<open>
  C2, as stated: a structured score \<^verbatim>\<open>{"home": 2, "away": 1}\<close> without a
  \<^verbatim>\<open>fulltime\<close> entry would be parsed to \<open>(2, 1)\<close>. Line 189 binds
  \<^verbatim>\<open>score.get("fulltime")\<close>, that is \<^verbatim>\<open>None\<close>, for such a mapping, and the result
  is \<open>(0, 0)\<close>.
\<close>

theorem parse_score_mapping_without_fulltime_counterexample:
  "parse_score (PDict [(''home'', PInt 2), (''away'', PInt 1)]) = Inr (0, 0)
   \<and> parse_score (PDict [(''home'', PInt 2), (''away'', PInt 1)]) \<noteq> Inr (2, 1)"
  by (simp add: parse_score_def parse_fulltime_def dget_def dget_default_def)

text \<open>
  C2, amended. Only a score value that is not a mapping is treated as the fulltime value
  itself. Of a mapping, the \<^verbatim>\<open>fulltime\<close> entry is the fulltime value; a mapping without
  that entry yields \<open>(0, 0)\<close>. So the structured score
  \<^verbatim>\<open>{"fulltime": {"home": h, "away": a}}\<close> with integers \<open>h\<close>, \<open>a\<close> is parsed to
  \<open>(h, a)\<close>, and \<^verbatim>\<open>{"home": h, "away": a}\<close> to \<open>(0, 0)\<close>.
\<close>

theorem parse_score_fulltime_entry:
  "((\<forall>d. score \<noteq> PDict d) \<longrightarrow> parse_score score = parse_fulltime score)
   \<and> (map_of d ''fulltime'' = Some f \<longrightarrow> parse_score (PDict d) = parse_fulltime f)
   \<and> (map_of d ''fulltime'' = None \<longrightarrow> parse_score (PDict d) = Inr (0, 0))
   \<and> parse_score (PDict [(''fulltime'', PDict [(''home'', PInt h), (''away'', PInt a)])])
       = Inr (h, a)
   \<and> parse_score (PDict [(''home'', PInt h), (''away'', PInt a)]) = Inr (0, 0)"
proof -
  have not_dict: "(\<forall>d. score \<noteq> PDict d) \<longrightarrow> parse_score score = parse_fulltime score"
    by (cases score) (simp_all add: parse_score_def)
  have present: "map_of d ''fulltime'' = Some f \<longrightarrow> parse_score (PDict d) = parse_fulltime f"
    by (simp add: parse_score_def dget_def dget_default_def)
  have absent: "map_of d ''fulltime'' = None \<longrightarrow> parse_score (PDict d) = Inr (0, 0)"
    by (simp add: parse_score_def parse_fulltime_def dget_def dget_default_def)
  have structured:
    "parse_score (PDict [(''fulltime'', PDict [(''home'', PInt h), (''away'', PInt a)])])
       = Inr (h, a)"
    by (simp add: parse_score_def parse_fulltime_def dget_def dget_default_def py_or_def)
  have bare: "parse_score (PDict [(''home'', PInt h), (''away'', PInt a)]) = Inr (0, 0)"
    by (simp add: parse_score_def parse_fulltime_def dget_def dget_default_def)
  from not_dict present absent structured bare show ?thesis by blast
qed

theorem parse_score_fulltime_entry_witness:
  "parse_score (PStr ''2-1'') = parse_fulltime (PStr ''2-1'')
   \<and> parse_score (PDict [(''fulltime'', PStr ''2-1'')]) = parse_fulltime (PStr ''2-1'')
   \<and> parse_score (PDict [(''halftime'', PStr ''2-1'')]) = Inr (0, 0)
   \<and> parse_score (PDict [(''fulltime'', PDict [(''home'', PInt 3), (''away'', PInt 1)])])
       = Inr (3, 1)"
proof -
  have a: "parse_score (PStr ''2-1'') = parse_fulltime (PStr ''2-1'')"
    using parse_score_fulltime_entry [of "PStr ''2-1''"] by simp
  have b: "parse_score (PDict [(''fulltime'', PStr ''2-1'')]) = parse_fulltime (PStr ''2-1'')"
    using parse_score_fulltime_entry [of _ "[(''fulltime'', PStr ''2-1'')]" "PStr ''2-1''"]
    by simp
  have c: "parse_score (PDict [(''halftime'', PStr ''2-1'')]) = Inr (0, 0)"
    using parse_score_fulltime_entry [of _ "[(''halftime'', PStr ''2-1'')]"] by simp
  have d: "parse_score (PDict [(''fulltime'', PDict [(''home'', PInt 3), (''away'', PInt 1)])])
       = Inr (3, 1)"
    using parse_score_fulltime_entry [of _ _ _ 3 1] by simp
  from a b c d show ?thesis by blast
qed

subsection \<open>Dictionaries\<close>

lemma dd_lookup_key_cong:
  "key_norm k = key_norm k' \<Longrightarrow> dd_lookup kvs k = dd_lookup kvs k'"
  by (induction kvs) auto

lemma dd_lookup_modify:
  "dd_lookup (dd_modify f k kvs) t =
     (if key_norm t = key_norm k then map_option f (dd_lookup kvs t) else dd_lookup kvs t)"
  by (induction kvs) auto

lemma dd_lookup_modify_None:
  "dd_lookup (dd_modify f k kvs) t = None \<longleftrightarrow> dd_lookup kvs t = None"
  by (auto simp: dd_lookup_modify)

lemma dd_lookup_append:
  "dd_lookup (kvs @ [(k, v)]) t =
     (case dd_lookup kvs t of
        None \<Rightarrow> (if key_norm k = key_norm t then Some v else None)
      | Some w \<Rightarrow> Some w)"
  by (induction kvs) auto

lemma dd_lookup_touch:
  "dd_lookup (dd_touch d k kvs) t =
     (case dd_lookup kvs t of
        None \<Rightarrow> (if key_norm k = key_norm t then Some d else None)
      | Some w \<Rightarrow> Some w)"
  using dd_lookup_key_cong [of k t kvs]
  by (auto simp: dd_touch_def dd_lookup_append split: option.splits)

lemma dd_lookup_touch_same:
  "key_norm t = key_norm k \<Longrightarrow> dd_lookup (dd_touch d k kvs) t \<noteq> None"
  by (auto simp: dd_lookup_touch split: option.splits)

lemma dd_lookup_touch_mono:
  "dd_lookup kvs t \<noteq> None \<Longrightarrow> dd_lookup (dd_touch d k kvs) t \<noteq> None"
  by (auto simp: dd_lookup_touch split: option.splits)

lemma dd_modify_modify:
  "dd_modify f k (dd_modify g k kvs) = dd_modify (f \<circ> g) k kvs"
  by (induction kvs) auto

lemma dd_modify_cong:
  "(\<And>v. f v = g v) \<Longrightarrow> dd_modify f k kvs = dd_modify g k kvs"
  by (induction kvs) auto

lemma dd_distinct_modify: "dd_distinct (dd_modify f k kvs) = dd_distinct kvs"
proof -
  have "map (key_norm \<circ> fst) (dd_modify f k kvs) = map (key_norm \<circ> fst) kvs"
    by (induction kvs) auto
  then show ?thesis by (simp add: dd_distinct_def)
qed

lemma dd_lookup_None_iff:
  "dd_lookup kvs k = None \<longleftrightarrow> key_norm k \<notin> set (map (key_norm \<circ> fst) kvs)"
proof (induction kvs)
  case Nil
  show ?case by simp
next
  case (Cons kv kvs)
  then show ?case by (cases kv) (auto simp: eq_commute)
qed

lemma dd_distinct_touch: "dd_distinct kvs \<Longrightarrow> dd_distinct (dd_touch d k kvs)"
  by (auto simp: dd_distinct_def dd_touch_def dd_lookup_None_iff split: option.splits)

lemma dd_distinct_lookup:
  "dd_distinct kvs \<Longrightarrow> (k, v) \<in> set kvs \<Longrightarrow> dd_lookup kvs k = Some v"
  by (induction kvs) (auto simp: dd_distinct_def rev_image_eqI)

subsection \<open>One match of the standings loop\<close>

text \<open>
  The ten mutations of lines 54 to 68 amount to one update of the home row and one of the
  away row, each by the specification's rule for a side. This holds as well when both
  ids name the same row.
\<close>

lemma record_result_sides:
  "record_result h a hg ag st = dd_modify (spec_side ag hg) a (dd_modify (spec_side hg ag) h st)"
proof (induction st)
  case Nil
  show ?case by (simp add: record_result_def)
next
  case (Cons kv st)
  obtain k v where kv: "kv = (k, v)" by (cases kv)
  show ?case
  proof (cases "key_norm k = key_norm h")
    case h: True
    show ?thesis
    proof (cases "key_norm k = key_norm a")
      case True
      with h show ?thesis
        by (simp add: kv record_result_def spec_side_def)
    next
      case False
      with h show ?thesis
        by (auto simp add: kv record_result_def spec_side_def dd_modify_modify comp_def
            intro!: dd_modify_cong)
    qed
  next
    case h: False
    show ?thesis
    proof (cases "key_norm k = key_norm a")
      case True
      with h show ?thesis
        by (auto simp add: kv record_result_def spec_side_def dd_modify_modify comp_def
            intro!: dd_modify_cong)
    next
      case False
      with h have "record_result h a hg ag ((k, v) # st) = (k, v) # record_result h a hg ag st"
        by (simp add: record_result_def Let_def)
      with h False Cons.IH show ?thesis
        by (simp add: kv)
    qed
  qed
qed

lemma row_of_modify:
  "row_of (dd_modify f k st) t =
     (if key_norm t = key_norm k \<and> dd_lookup st t \<noteq> None then f (row_of st t)
      else row_of st t)"
  by (auto simp: row_of_def dd_lookup_modify split: option.splits)

lemma row_of_touch: "row_of (dd_touch new_standing k st) t = row_of st t"
  by (auto simp: row_of_def dd_lookup_touch split: option.splits)

lemma standings_match_rows:
  assumes "has_teams m"
    and "parse_score (dget_default m ''score'' (PDict [])) = Inr (hg, ag)"
  shows "\<exists>st'. standings_match m st = Inr st' \<and>
     (\<forall>t. row_of st' t =
        spec_teams (dget m ''home_team_id'') (dget m ''away_team_id'') hg ag t (row_of st t))"
  using assms
  by (auto simp: standings_match_def Let_def has_teams_def spec_teams_def record_result_sides
      row_of_modify row_of_touch dd_lookup_modify_None dd_lookup_touch_same
      dd_lookup_touch_mono)

lemma standings_match_distinct:
  "standings_match m st = Inr st' \<Longrightarrow> dd_distinct st \<Longrightarrow> dd_distinct st'"
  by (auto simp: standings_match_def Let_def record_result_sides dd_distinct_modify
      dd_distinct_touch split: sum.splits if_splits)

lemma standings_loop_distinct:
  "standings_loop ms st = Inr st' \<Longrightarrow> dd_distinct st \<Longrightarrow> dd_distinct st'"
  by (induction ms arbitrary: st) (auto split: sum.splits dest: standings_match_distinct)

lemma standings_loop_rows:
  assumes "\<forall>m\<in>set ms. has_teams m \<and> score_ok m"
  shows "\<exists>st'. standings_loop ms st = Inr st' \<and>
     (\<forall>t. row_of st' t = fold (\<lambda>m. spec_match_row m t) ms (row_of st t))"
  using assms
proof (induction ms arbitrary: st)
  case Nil
  show ?case by simp
next
  case (Cons m ms)
  from Cons.prems have m: "has_teams m" "score_ok m" by simp_all
  from m(2) obtain hg ag where sc: "parse_score (dget_default m ''score'' (PDict [])) = Inr (hg, ag)"
    by (auto simp: score_ok_def split: sum.splits)
  from standings_match_rows [OF m(1) sc, of st] obtain st1 where
    st1: "standings_match m st = Inr st1"
    and rows: "\<And>t. row_of st1 t = spec_match_row m t (row_of st t)"
    by (auto simp: spec_match_row_def sc)
  from Cons.IH [of st1] Cons.prems obtain st' where
    "standings_loop ms st1 = Inr st'"
    "\<And>t. row_of st' t = fold (\<lambda>m. spec_match_row m t) ms (row_of st1 t)"
    by auto
  with st1 rows show ?case by simp
qed

subsection \<open>The standings of a set of matches\<close>

lemma int_of_str_3: "int_of_str ''3'' = Some 3"
  by (simp add: int_of_str_def strip_def is_space_def unsigned_of_str_def digit_val_def
      max_str_digits_def)

lemma parse_x: "parse_score (dget_default match_x_home ''score'' (PDict [])) = Inr (3, 1)"
  by (simp add: match_x_home_def parse_score_def parse_fulltime_def dget_def dget_default_def
      int_of_str_examples int_of_str_3)

lemma parse_y: "parse_score (dget_default match_y_home ''score'' (PDict [])) = Inr (2, 2)"
  by (simp add: match_y_home_def parse_score_def parse_fulltime_def dget_def dget_default_def
      py_or_def)

lemma has_teams_xy: "has_teams match_x_home" "has_teams match_y_home"
  by (simp_all add: has_teams_def match_x_home_def match_y_home_def dget_def dget_default_def)

lemma score_ok_xy: "score_ok match_x_home" "score_ok match_y_home"
  by (simp_all add: score_ok_def parse_x parse_y)

lemma build_table_example: "build_table [match_x_home, match_y_home] = Inr [row_x, row_y]"
  by code_simp

lemma build_table_rows:
  assumes "\<forall>m\<in>set ms. has_teams m \<and> score_ok m"
  shows "\<exists>table. build_table ms = Inr table \<and>
     (\<forall>row\<in>set table. row_matches row (spec_standing ms (r_team_id row)))"
proof -
  from standings_loop_rows [OF assms, of "[]"] obtain st where
    st: "standings_loop ms [] = Inr st"
    and rows: "\<And>t. row_of st t = spec_standing ms t"
    by (auto simp: spec_standing_def row_of_def)
  have d: "dd_distinct st"
    using standings_loop_distinct [OF st] by (simp add: dd_distinct_def)
  have "row_matches row (spec_standing ms (r_team_id row))"
    if "row \<in> set (sort_table (table_rows st))" for row
  proof -
    from that obtain k r where kr: "(k, r) \<in> set st"
      and row: "row = \<lparr>r_team_id = k, r_played = played r, r_wins = wins r,
             r_draws = draws r, r_losses = losses r, r_goals_for = goals_for r,
             r_goals_against = goals_against r, r_goal_difference = goal_diff r,
             r_points = points r\<rparr>"
      by (auto simp: sort_table_def table_rows_def)
    from dd_distinct_lookup [OF d kr] have "row_of st k = r" by (simp add: row_of_def)
    with rows have "spec_standing ms k = r" by simp
    then show ?thesis by (simp add: row row_matches_def goal_diff_def points_def)
  qed
  with st show ?thesis by (simp add: build_table_def)
qed

lemma row_of_empty: "row_of [] t = new_standing"
  by (simp add: row_of_def)

lemma bad_score_raises:
  "has_teams match_bad_score"
  "parse_score (dget_default match_bad_score ''score'' (PDict [])) = Inl ValueError"
  by (simp_all add: match_bad_score_def has_teams_def dget_def dget_default_def
      parse_score_def parse_fulltime_def py_or_def int_of_str_examples)

lemma build_table_bad_score:
  "build_table [match_bad_score] = Inl ValueError"
  "build_table [match_x_home, match_bad_score, match_y_home] = Inl ValueError"
  by code_simp+

text \<open>
  C3. The claim is about every set of matches with both team ids present. A match with
  both ids whose stored score is \<^verbatim>\<open>{"fulltime": {"home": "x", "away": 1}}\<close> makes
  \<^verbatim>\<open>parse_score\<close> raise \<^verbatim>\<open>ValueError\<close> (line 49 calling line 191), so the builder
  returns no table for a set that holds it, where the specification extracts a pair and
  accumulates. For matches that all have both team ids and a score that extraction
  returns a pair for, the builder does what the claim says: it returns a table, and every
  row of it is the accumulation the specification describes for the row's team: over the
  matches, the team has played once more per side it takes, its goals for and against
  grow by the goals of the side it takes, a side that scored more gets a win, one that
  scored less a loss, and both get a draw on equal goals; goal difference is goals for
  minus goals against and points are three per win plus one per draw. The next part is
  the same statement for the loop body on any accumulator, and the last is the
  specification's example, TeamX ranked above TeamY.
\<close>

theorem standings_accumulate:
  "has_teams match_bad_score
   \<and> build_table [match_bad_score] = Inl ValueError
   \<and> build_table [match_x_home, match_bad_score, match_y_home] = Inl ValueError
   \<and> ((\<forall>m\<in>set ms. has_teams m \<and> score_ok m) \<longrightarrow>
      (\<exists>table. build_table ms = Inr table \<and>
         (\<forall>row\<in>set table. row_matches row (spec_standing ms (r_team_id row)))))
   \<and> (has_teams m \<and> parse_score (dget_default m ''score'' (PDict [])) = Inr (hg, ag) \<longrightarrow>
      (\<exists>st'. standings_match m st = Inr st' \<and>
         (\<forall>t. row_of st' t =
            spec_teams (dget m ''home_team_id'') (dget m ''away_team_id'') hg ag t
              (row_of st t))))
   \<and> build_table [match_x_home, match_y_home] = Inr [row_x, row_y]"
  using build_table_rows [of ms] standings_match_rows [of m hg ag st] build_table_example
    bad_score_raises(1) build_table_bad_score
  by (intro conjI) blast+

theorem standings_accumulate_witness:
  "has_teams match_x_home \<and> score_ok match_x_home
   \<and> has_teams match_y_home \<and> score_ok match_y_home
   \<and> parse_score (dget_default match_x_home ''score'' (PDict [])) = Inr (3, 1)
   \<and> (\<exists>table. build_table [match_x_home, match_y_home] = Inr table
         \<and> list_all (\<lambda>row. row_matches row
               (spec_standing [match_x_home, match_y_home] (r_team_id row))) table)
   \<and> (\<exists>st'. standings_match match_x_home [] = Inr st'
         \<and> row_of st' (PStr ''TeamX'') = spec_side 3 1 new_standing
         \<and> row_of st' (PStr ''TeamY'') = spec_side 1 3 new_standing)"
proof -
  have pre: "\<forall>m\<in>set [match_x_home, match_y_home]. has_teams m \<and> score_ok m"
    by (simp add: has_teams_xy score_ok_xy)
  have table: "\<exists>table. build_table [match_x_home, match_y_home] = Inr table
         \<and> list_all (\<lambda>row. row_matches row
               (spec_standing [match_x_home, match_y_home] (r_team_id row))) table"
    unfolding list_all_iff
    using standings_accumulate [of "[match_x_home, match_y_home]"] pre by blast
  have step: "\<exists>st'. standings_match match_x_home [] = Inr st'
         \<and> row_of st' (PStr ''TeamX'') = spec_side 3 1 new_standing
         \<and> row_of st' (PStr ''TeamY'') = spec_side 1 3 new_standing"
  proof -
    from standings_accumulate [of _ match_x_home 3 1 "[]"] has_teams_xy(1) parse_x
    obtain st' where st': "standings_match match_x_home [] = Inr st'"
      "\<And>t. row_of st' t =
            spec_teams (dget match_x_home ''home_team_id'') (dget match_x_home ''away_team_id'')
              3 1 t (row_of [] t)"
      by blast
    have ids: "dget match_x_home ''home_team_id'' = PStr ''TeamX''"
      "dget match_x_home ''away_team_id'' = PStr ''TeamY''"
      by (simp_all add: match_x_home_def dget_def dget_default_def)
    have "row_of st' (PStr ''TeamX'') = spec_side 3 1 new_standing"
      "row_of st' (PStr ''TeamY'') = spec_side 1 3 new_standing"
      by (simp_all add: st'(2) ids spec_teams_def row_of_empty)
    with st'(1) show ?thesis by blast
  qed
  from has_teams_xy score_ok_xy parse_x table step show ?thesis by blast
qed

subsection \<open>Invariant and order of the table\<close>

lemma balanced_spec_side: "balanced r \<Longrightarrow> balanced (spec_side x y r)"
  by (simp add: balanced_def spec_side_def)

lemma dd_modify_all:
  assumes "\<And>v. P v \<Longrightarrow> P (f v)" and "\<forall>v\<in>set (map snd kvs). P v"
  shows "\<forall>v\<in>set (map snd (dd_modify f k' kvs)). P v"
  using assms(2)
proof (induction kvs)
  case Nil
  show ?case by simp
next
  case (Cons kv kvs)
  obtain k v where kv: "kv = (k, v)" by (cases kv)
  from Cons show ?case by (simp add: kv assms(1))
qed

lemma dd_touch_all:
  "P d \<Longrightarrow> \<forall>v\<in>set (map snd kvs). P v \<Longrightarrow> \<forall>v\<in>set (map snd (dd_touch d k' kvs)). P v"
  by (simp add: dd_touch_def split: option.splits)

lemma record_result_balanced:
  assumes "\<forall>r\<in>set (map snd st). balanced r"
  shows "\<forall>r\<in>set (map snd (record_result h a hg ag
           (dd_touch new_standing a (dd_touch new_standing h st)))). balanced r"
proof -
  have z: "balanced new_standing" by (simp add: balanced_def new_standing_def)
  have "\<forall>r\<in>set (map snd (dd_touch new_standing a (dd_touch new_standing h st))). balanced r"
    by (intro dd_touch_all z assms)
  then show ?thesis
    unfolding record_result_sides
    by (intro dd_modify_all balanced_spec_side)
qed

lemma standings_match_balanced:
  assumes "standings_match m st = Inr st'" and "\<forall>r\<in>set (map snd st). balanced r"
  shows "\<forall>r\<in>set (map snd st'). balanced r"
proof (cases "st' = st")
  case True
  with assms(2) show ?thesis by simp
next
  case False
  with assms(1) obtain hg ag where
    "st' = record_result (dget m ''home_team_id'') (dget m ''away_team_id'') hg ag
       (dd_touch new_standing (dget m ''away_team_id'')
          (dd_touch new_standing (dget m ''home_team_id'') st))"
    by (auto simp: standings_match_def Let_def split: sum.splits if_splits)
  with record_result_balanced [OF assms(2)] show ?thesis by simp
qed

lemma standings_loop_balanced:
  "standings_loop ms st = Inr st' \<Longrightarrow> \<forall>r\<in>set (map snd st). balanced r \<Longrightarrow>
   \<forall>r\<in>set (map snd st'). balanced r"
proof (induction ms arbitrary: st)
  case Nil
  then show ?case by simp
next
  case (Cons m ms)
  from Cons.prems(1) obtain st1 where st1: "standings_match m st = Inr st1"
    and rest: "standings_loop ms st1 = Inr st'"
    by (auto split: sum.splits)
  from standings_match_balanced [OF st1 Cons.prems(2)]
  have "\<forall>r\<in>set (map snd st1). balanced r" .
  with Cons.IH [OF rest] show ?case .
qed

lemma build_table_balanced:
  assumes "build_table ms = Inr table"
  shows "\<forall>row\<in>set table. r_played row = r_wins row + r_draws row + r_losses row"
proof -
  from assms obtain st where st: "standings_loop ms [] = Inr st"
    and table: "table = sort_table (table_rows st)"
    by (auto simp: build_table_def split: sum.splits)
  from standings_loop_balanced [OF st] have "\<forall>r\<in>set (map snd st). balanced r" by simp
  then show ?thesis
    by (auto simp: table sort_table_def table_rows_def balanced_def)
qed

lemma table_key_le: "table_key r \<le> table_key s \<longleftrightarrow> ranked_before r s"
  by (auto simp: table_key_def ranked_before_def less_eq_prod_def)

lemma table_key_eq: "table_key r = (- p, - gd, - gf) \<longleftrightarrow> tied_at p gd gf r"
  by (auto simp: table_key_def tied_at_def)

lemma sort_table_sorted: "sorted_wrt ranked_before (sort_table rows)"
proof -
  have "sorted (map table_key (sort_key table_key rows))" by (rule sorted_sort_key)
  then show ?thesis by (simp add: sort_table_def sorted_map table_key_le)
qed

lemma sort_table_stable: "filter (tied_at p gd gf) (sort_table rows) = filter (tied_at p gd gf) rows"
  using sort_key_stable [of table_key "(- p, - gd, - gf)" rows]
  by (simp add: sort_table_def table_key_eq)

lemma sort_table_mset: "mset (sort_table rows) = mset rows"
  by (simp add: sort_table_def)

lemma build_table_reordered: "build_table [match_y_home, match_x_home] = Inr [row_x, row_y]"
  by code_simp

lemma build_table_draws:
  "build_table [draw_match ''A'' ''B'', draw_match ''C'' ''D'']
     = Inr [draw_row ''A'', draw_row ''B'', draw_row ''C'', draw_row ''D'']"
  by code_simp

text \<open>
  C10. Every row of a league table the builder returns has
  \<open>played = wins + draws + losses\<close>. The identity is an invariant of the loop: a
  match that is processed adds one to \<open>played\<close> and one to exactly one of the three
  outcomes on each side, so the loop body keeps it on every row of the accumulator.
\<close>

theorem played_is_wins_draws_losses:
  "(build_table ms = Inr table \<longrightarrow>
      (\<forall>row\<in>set table. r_played row = r_wins row + r_draws row + r_losses row))
   \<and> (standings_match m st = Inr st' \<and> (\<forall>r\<in>set (map snd st). balanced r) \<longrightarrow>
      (\<forall>r\<in>set (map snd st'). balanced r))"
  using build_table_balanced [of ms table] standings_match_balanced [of m st st']
  by blast

theorem played_is_wins_draws_losses_witness:
  "build_table [match_x_home, match_y_home] = Inr [row_x, row_y]
   \<and> r_played row_x = r_wins row_x + r_draws row_x + r_losses row_x
   \<and> r_played row_y = r_wins row_y + r_draws row_y + r_losses row_y
   \<and> (\<exists>st'. standings_match match_x_home [] = Inr st' \<and> list_all balanced (map snd st'))"
proof -
  have rows: "r_played row_x = r_wins row_x + r_draws row_x + r_losses row_x"
    "r_played row_y = r_wins row_y + r_draws row_y + r_losses row_y"
    using played_is_wins_draws_losses [of "[match_x_home, match_y_home]" "[row_x, row_y]"]
      build_table_example by simp_all
  obtain st' where st': "standings_match match_x_home [] = Inr st'"
    using standings_match_rows [OF has_teams_xy(1) parse_x] by blast
  have "list_all balanced (map snd st')"
    unfolding list_all_iff
    using played_is_wins_draws_losses [of _ _ match_x_home "[]" st'] st' by simp
  with rows st' build_table_example show ?thesis by blast
qed

text \<open>
  C4. A league table the builder returns holds the rows of the accumulator, ordered by
  points descending, then goal difference descending, then goals for descending; the sort
  is stable: the rows tied on all three keys are in the order the accumulator had them.
\<close>

theorem table_sorted_stable:
  "build_table ms = Inr table \<longrightarrow>
     (\<exists>st. standings_loop ms [] = Inr st
        \<and> mset table = mset (table_rows st)
        \<and> sorted_wrt ranked_before table
        \<and> (\<forall>p gd gf. filter (tied_at p gd gf) table = filter (tied_at p gd gf) (table_rows st)))"
  by (auto simp: build_table_def sort_table_mset sort_table_sorted sort_table_stable
      split: sum.splits)

theorem table_sorted_stable_witness:
  "build_table [match_y_home, match_x_home] = Inr [row_x, row_y]
   \<and> sorted_wrt ranked_before [row_x, row_y]
   \<and> build_table [draw_match ''A'' ''B'', draw_match ''C'' ''D'']
       = Inr [draw_row ''A'', draw_row ''B'', draw_row ''C'', draw_row ''D'']
   \<and> (\<exists>st. standings_loop [draw_match ''A'' ''B'', draw_match ''C'' ''D''] [] = Inr st
         \<and> map r_team_id (table_rows st) = [PStr ''A'', PStr ''B'', PStr ''C'', PStr ''D'']
         \<and> filter (tied_at 1 0 1) [draw_row ''A'', draw_row ''B'', draw_row ''C'', draw_row ''D'']
             = table_rows st)"
proof -
  have a: "sorted_wrt ranked_before [row_x, row_y]"
    using table_sorted_stable [of "[match_y_home, match_x_home]" "[row_x, row_y]"]
      build_table_reordered by blast
  let ?ms = "[draw_match ''A'' ''B'', draw_match ''C'' ''D'']"
  let ?t = "[draw_row ''A'', draw_row ''B'', draw_row ''C'', draw_row ''D'']"
  from table_sorted_stable [of ?ms ?t] build_table_draws
  obtain st where st: "standings_loop ?ms [] = Inr st"
    and m: "mset ?t = mset (table_rows st)"
    and f: "filter (tied_at 1 0 1) ?t = filter (tied_at 1 0 1) (table_rows st)"
    by blast
  from m have "set (table_rows st) = set ?t" by (metis set_mset_mset)
  then have "\<forall>r\<in>set (table_rows st). tied_at 1 0 1 r"
    by (simp add: tied_at_def draw_row_def)
  then have "filter (tied_at 1 0 1) (table_rows st) = table_rows st" by simp
  with f have eq: "filter (tied_at 1 0 1) ?t = table_rows st" by simp
  have "filter (tied_at 1 0 1) ?t = ?t" by (simp add: tied_at_def draw_row_def)
  with eq have "map r_team_id (table_rows st) = [PStr ''A'', PStr ''B'', PStr ''C'', PStr ''D'']"
    by (simp add: draw_row_def)
  with st eq have "\<exists>st. standings_loop ?ms [] = Inr st
         \<and> map r_team_id (table_rows st) = [PStr ''A'', PStr ''B'', PStr ''C'', PStr ''D'']
         \<and> filter (tied_at 1 0 1) ?t = table_rows st"
    by (intro exI [of _ st] conjI)
  with a build_table_reordered build_table_draws show ?thesis
    by (intro conjI)
qed

subsection \<open>Longest streaks\<close>

lemma streak_scan_ge: "l \<le> streak_scan xs t l c"
proof (induction xs arbitrary: l c)
  case Nil
  show ?case by simp
next
  case (Cons v xs)
  show ?case
  proof (cases "v = t")
    case True
    have "l \<le> max l (c + 1)" by simp
    also have "\<dots> \<le> streak_scan xs t (max l (c + 1)) (c + 1)" by (rule Cons.IH)
    finally show ?thesis using True by simp
  next
    case False
    with Cons.IH [of l 0] show ?thesis by simp
  qed
qed

lemma streak_scan_prefix:
  "prefix (replicate n t) xs \<Longrightarrow> c \<le> l \<Longrightarrow> c + int n \<le> streak_scan xs t l c"
proof (induction xs arbitrary: n l c)
  case Nil
  then show ?case by simp
next
  case (Cons v xs)
  show ?case
  proof (cases n)
    case 0
    have "l \<le> streak_scan (v # xs) t l c" by (rule streak_scan_ge)
    with Cons.prems(2) 0 show ?thesis by simp
  next
    case (Suc k)
    with Cons.prems(1) have v: "v = t" and p: "prefix (replicate k t) xs" by auto
    from Cons.IH [OF p, of "c + 1" "max l (c + 1)"] v Suc show ?thesis by simp
  qed
qed

lemma streak_scan_run:
  "has_run xs t n \<Longrightarrow> 0 \<le> c \<Longrightarrow> c \<le> l \<Longrightarrow> int n \<le> streak_scan xs t l c"
proof (induction xs arbitrary: l c)
  case Nil
  then have "n = 0" by (simp add: has_run_def)
  with Nil show ?case by simp
next
  case (Cons v xs)
  from Cons.prems(1) have "prefix (replicate n t) (v # xs) \<or> has_run xs t n"
    by (simp add: has_run_def sublist_Cons_right)
  then show ?case
  proof
    assume "prefix (replicate n t) (v # xs)"
    from streak_scan_prefix [OF this Cons.prems(3)] Cons.prems(2) show ?thesis by simp
  next
    assume r: "has_run xs t n"
    show ?thesis
    proof (cases "v = t")
      case True
      from Cons.IH [OF r, of "c + 1" "max l (c + 1)"] Cons.prems(2) True show ?thesis by simp
    next
      case False
      from Cons.IH [OF r, of 0 l] Cons.prems False show ?thesis by simp
    qed
  qed
qed

text \<open>The result is \<open>l\<close>, or the current run extended by a leading run, or a run inside.\<close>

lemma streak_scan_attained:
  "0 \<le> c \<Longrightarrow> c \<le> l \<Longrightarrow>
   streak_scan xs t l c = l
   \<or> (\<exists>n. streak_scan xs t l c = c + int n \<and> prefix (replicate n t) xs)
   \<or> (\<exists>n. streak_scan xs t l c = int n \<and> has_run xs t n)"
proof (induction xs arbitrary: l c)
  case Nil
  show ?case by simp
next
  case (Cons v xs)
  show ?case
  proof (cases "v = t")
    case True
    from Cons.prems have pre: "0 \<le> c + 1" "c + 1 \<le> max l (c + 1)" by simp_all
    let ?r = "streak_scan xs t (max l (c + 1)) (c + 1)"
    from Cons.IH [OF pre] consider
      (a) "?r = max l (c + 1)"
      | (b) n where "?r = c + 1 + int n" "prefix (replicate n t) xs"
      | (c) n where "?r = int n" "has_run xs t n"
      by blast
    then show ?thesis
    proof cases
      case a
      show ?thesis
      proof (cases "c + 1 \<le> l")
        case True
        with a \<open>v = t\<close> show ?thesis by (simp add: max_def)
      next
        case False
        with a \<open>v = t\<close> have "streak_scan (v # xs) t l c = c + int 1"
          by (simp add: max_def)
        moreover have "prefix (replicate 1 t) (v # xs)" using \<open>v = t\<close> by simp
        ultimately show ?thesis by blast
      qed
    next
      case b
      from b(1) \<open>v = t\<close> have "streak_scan (v # xs) t l c = c + int (Suc n)" by simp
      moreover from b(2) \<open>v = t\<close> have "prefix (replicate (Suc n) t) (v # xs)" by simp
      ultimately show ?thesis by blast
    next
      case c
      from c(1) \<open>v = t\<close> have "streak_scan (v # xs) t l c = int n" by simp
      moreover from c(2) have "has_run (v # xs) t n"
        by (simp add: has_run_def sublist_Cons_right)
      ultimately show ?thesis by blast
    qed
  next
    case False
    let ?r = "streak_scan xs t l 0"
    from Cons.prems have pre: "(0::int) \<le> 0" "0 \<le> l" by simp_all
    from Cons.IH [OF pre] consider
      (a) "?r = l"
      | (b) n where "?r = 0 + int n" "prefix (replicate n t) xs"
      | (c) n where "?r = int n" "has_run xs t n"
      by blast
    then show ?thesis
    proof cases
      case a
      with False show ?thesis by simp
    next
      case b
      from b(1) False have "streak_scan (v # xs) t l c = int n" by simp
      moreover from b(2) have "has_run (v # xs) t n"
        by (simp add: has_run_def sublist_Cons_right)
      ultimately show ?thesis by blast
    next
      case c
      from c(1) False have "streak_scan (v # xs) t l c = int n" by simp
      moreover from c(2) have "has_run (v # xs) t n"
        by (simp add: has_run_def sublist_Cons_right)
      ultimately show ?thesis by blast
    qed
  qed
qed

lemma longest_streak_is_run:
  "\<exists>n. longest_streak xs t = int n \<and> has_run xs t n"
proof -
  from streak_scan_attained [of 0 0 xs t] consider
    (a) "streak_scan xs t 0 0 = 0"
    | (b) n where "streak_scan xs t 0 0 = 0 + int n" "prefix (replicate n t) xs"
    | (c) n where "streak_scan xs t 0 0 = int n" "has_run xs t n"
    by auto
  then show ?thesis
  proof cases
    case a
    then have "longest_streak xs t = int 0 \<and> has_run xs t 0"
      by (simp add: longest_streak_def has_run_def)
    then show ?thesis by blast
  next
    case b
    then have "longest_streak xs t = int n \<and> has_run xs t n"
      by (simp add: longest_streak_def has_run_def)
    then show ?thesis by blast
  next
    case c
    then show ?thesis by (auto simp: longest_streak_def)
  qed
qed

lemma longest_streak_bounds_runs:
  "has_run xs t n \<Longrightarrow> int n \<le> longest_streak xs t"
  using streak_scan_run [of xs t n 0 0] by (simp add: longest_streak_def)

lemma results_of_append:
  "results_of (dd_append k x st) t =
     (if key_norm t = key_norm k then results_of st t @ [x] else results_of st t)"
  by (auto simp: results_of_def dd_append_def dd_lookup_modify dd_lookup_touch
      split: option.splits)

lemma streak_match_clean_sheet:
  assumes "has_teams m"
    and "parse_score (dget_default m ''score'' (PDict [])) = Inr (hg, ag)"
  shows "\<exists>st'. streak_match (PStr ''clean_sheet'') m st = Inr st' \<and>
     (\<forall>t. results_of st' t =
        results_of st t
        @ (if key_norm t = key_norm (dget m ''home_team_id'')
           then [if ag = 0 then ''C'' else ''N''] else [])
        @ (if key_norm t = key_norm (dget m ''away_team_id'')
           then [if hg = 0 then ''C'' else ''N''] else []))"
  using assms
  by (simp add: streak_match_def Let_def has_teams_def results_of_append clean_symbol_def)

lemma streak_loop_example:
  "streak_loop (PStr ''clean_sheet'')
     [played_match ''A'' ''B'' ''2-0'', played_match ''A'' ''B'' ''1-1'',
      played_match ''A'' ''B'' ''0-3''] []
   = Inr [(PStr ''A'', [''C'', ''N'', ''N'']), (PStr ''B'', [''N'', ''N'', ''C''])]"
  by code_simp

lemma longest_streak_example: "longest_streak [''C'', ''N'', ''N''] ''C'' = 1"
  by (simp add: longest_streak_def)

text \<open>
  C5. \<^verbatim>\<open>longest_streak\<close> returns the length of the longest run of the target symbol
  in the sequence: the sequence has a run of that length, and no run of it is longer. In
  a clean-sheet analysis a processed match appends to the home team's sequence \<open>C\<close> when
  the away side scored zero and \<open>N\<close> otherwise, and to the away team's sequence \<open>C\<close>
  when the home side scored zero and \<open>N\<close> otherwise. The specification's example, A
  against B with 2-0, 1-1 and 0-3, gives A the sequence \<open>C, N, N\<close>, whose longest
  streak is 1.
\<close>

theorem longest_streak_longest_run:
  "(\<exists>n. longest_streak sequence target = int n \<and> has_run sequence target n)
   \<and> (\<forall>n. has_run sequence target n \<longrightarrow> int n \<le> longest_streak sequence target)
   \<and> (has_teams m \<and> parse_score (dget_default m ''score'' (PDict [])) = Inr (hg, ag) \<longrightarrow>
       (\<exists>st'. streak_match (PStr ''clean_sheet'') m st = Inr st' \<and>
          (\<forall>t. results_of st' t =
             results_of st t
             @ (if key_norm t = key_norm (dget m ''home_team_id'')
                then [if ag = 0 then ''C'' else ''N''] else [])
             @ (if key_norm t = key_norm (dget m ''away_team_id'')
                then [if hg = 0 then ''C'' else ''N''] else []))))
   \<and> streak_loop (PStr ''clean_sheet'')
        [played_match ''A'' ''B'' ''2-0'', played_match ''A'' ''B'' ''1-1'',
         played_match ''A'' ''B'' ''0-3''] []
      = Inr [(PStr ''A'', [''C'', ''N'', ''N'']), (PStr ''B'', [''N'', ''N'', ''C''])]
   \<and> longest_streak [''C'', ''N'', ''N''] ''C'' = 1"
proof -
  note a = longest_streak_is_run [of sequence target]
  have b: "\<forall>n. has_run sequence target n \<longrightarrow> int n \<le> longest_streak sequence target"
    by (simp add: longest_streak_bounds_runs)
  have c: "has_teams m \<and> parse_score (dget_default m ''score'' (PDict [])) = Inr (hg, ag) \<longrightarrow>
       (\<exists>st'. streak_match (PStr ''clean_sheet'') m st = Inr st' \<and>
          (\<forall>t. results_of st' t =
             results_of st t
             @ (if key_norm t = key_norm (dget m ''home_team_id'')
                then [if ag = 0 then ''C'' else ''N''] else [])
             @ (if key_norm t = key_norm (dget m ''away_team_id'')
                then [if hg = 0 then ''C'' else ''N''] else [])))"
    using streak_match_clean_sheet [of m hg ag st] by blast
  from a b c streak_loop_example longest_streak_example show ?thesis
    by (intro conjI)
qed

theorem longest_streak_longest_run_witness:
  "has_run [''C'', ''N'', ''N''] ''C'' 1
   \<and> 1 \<le> longest_streak [''C'', ''N'', ''N''] ''C''
   \<and> has_teams match_x_home
   \<and> parse_score (dget_default match_x_home ''score'' (PDict [])) = Inr (3, 1)
   \<and> (\<exists>st'. streak_match (PStr ''clean_sheet'') match_x_home [] = Inr st'
         \<and> results_of st' (PStr ''TeamX'') = [''N'']
         \<and> results_of st' (PStr ''TeamY'') = [''N''])"
proof -
  have run: "has_run [''C'', ''N'', ''N''] ''C'' 1"
    by (simp add: has_run_def sublist_Cons_right)
  have le: "1 \<le> longest_streak [''C'', ''N'', ''N''] ''C''"
    using longest_streak_longest_run [of "[''C'', ''N'', ''N'']" "''C''"] run by fastforce
  have ids: "dget match_x_home ''home_team_id'' = PStr ''TeamX''"
    "dget match_x_home ''away_team_id'' = PStr ''TeamY''"
    by (simp_all add: match_x_home_def dget_def dget_default_def)
  from longest_streak_longest_run [of _ _ match_x_home 3 1 "[]"] has_teams_xy(1) parse_x
  obtain st' where st': "streak_match (PStr ''clean_sheet'') match_x_home [] = Inr st'"
    and rows: "\<And>t. results_of st' t =
             results_of [] t
             @ (if key_norm t = key_norm (dget match_x_home ''home_team_id'')
                then [if (1::int) = 0 then ''C'' else ''N''] else [])
             @ (if key_norm t = key_norm (dget match_x_home ''away_team_id'')
                then [if (3::int) = 0 then ''C'' else ''N''] else [])"
    by blast
  have e: "\<And>t. results_of [] t = []" by (simp add: results_of_def)
  have "results_of st' (PStr ''TeamX'') = [''N'']" "results_of st' (PStr ''TeamY'') = [''N'']"
    by (simp_all add: rows ids e)
  with st' have "\<exists>st'. streak_match (PStr ''clean_sheet'') match_x_home [] = Inr st'
         \<and> results_of st' (PStr ''TeamX'') = [''N'']
         \<and> results_of st' (PStr ''TeamY'') = [''N'']"
    by (intro exI [of _ st'] conjI)
  with run le has_teams_xy(1) parse_x show ?thesis by (intro conjI)
qed

subsection \<open>Matches without a team id\<close>

lemma missing_home_raises:
  "dget match_without_home ''home_team_id'' = PNone"
  "parse_score (dget_default match_without_home ''score'' (PDict [])) = Inl ValueError"
  by (simp_all add: match_without_home_def dget_def dget_default_def parse_score_def
      parse_fulltime_def py_or_def int_of_str_examples)

text \<open>
  C7. A match without a home team id is to be skipped without an error. Both loops call
  \<^verbatim>\<open>parse_score\<close> (lines 49 and 148) before they test the ids (lines 50 and 149), so
  for such a match whose stored score is \<^verbatim>\<open>{"fulltime": {"home": "x", "away": 1}}\<close>
  the \<^verbatim>\<open>ValueError\<close> of score extraction ends the loop: the match that follows is not
  processed, and the two routes fail as a whole.
\<close>

theorem missing_team_match_raises:
  "dget match_without_home ''home_team_id'' = PNone
   \<and> standings_loop [match_without_home, match_x_home] [] = Inl ValueError
   \<and> build_table [match_without_home, match_x_home] = Inl ValueError
   \<and> streak_loop (PStr ''win'') [match_without_home, match_x_home] [] = Inl ValueError"
  by (simp add: missing_home_raises standings_match_def streak_match_def build_table_def
      Let_def)

lemma missing_team_routes_fail:
  "snd (league_table (\<lambda>call. [match_without_home, match_x_home]) league_args)
     = Inl ValueError"
  "snd (streaks (\<lambda>call. [match_without_home, match_x_home]) [(''type'', ''win'')])
     = Inl ValueError"
  by (simp_all add: missing_home_raises standings_match_def streak_match_def league_table_def
      streaks_def build_table_def league_args_def args_get_def Let_def)

text \<open>
  When score extraction returns a pair, a match that lacks a team id leaves both
  accumulators as they are.
\<close>

lemma standings_match_skip:
  assumes "dget m ''home_team_id'' = PNone \<or> dget m ''away_team_id'' = PNone"
    and "score_ok m"
  shows "standings_match m st = Inr st" and "streak_match ty m tr = Inr tr"
  using assms
  by (auto simp: standings_match_def streak_match_def score_ok_def Let_def split: sum.splits)

lemma streak_match_returns:
  assumes "ids_usable m" and "score_ok m"
  shows "\<exists>tr'. streak_match ty m tr = Inr tr'"
  using assms
  by (auto simp: streak_match_def ids_usable_def score_ok_def Let_def split: sum.splits)

lemma streak_loop_returns:
  "\<forall>m\<in>set ms. ids_usable m \<and> score_ok m \<Longrightarrow> \<exists>tr'. streak_loop ty ms tr = Inr tr'"
proof (induction ms arbitrary: tr)
  case Nil
  show ?case by simp
next
  case (Cons m ms)
  from Cons.prems streak_match_returns [of m ty tr] obtain tr1 where
    "streak_match ty m tr = Inr tr1" by auto
  with Cons.IH [of tr1] Cons.prems show ?case by simp
qed

lemma streaks_invalid:
  assumes "\<not> valid_streak_type (args_get args ''type'')"
  shows "streaks db args =
     ([], Inr (error_response ''VALIDATION_ERROR'' ''type must be win, loss, or clean_sheet'' 422))"
  using assms by (simp add: streaks_def valid_streak_type_def Let_def)

lemma streaks_valid:
  assumes "valid_streak_type (args_get args ''type'')"
  shows "streaks db args =
     ([streaks_call args],
      case streak_loop (args_get args ''type'') (db (streaks_call args)) [] of
        Inl e \<Rightarrow> Inl e
      | Inr team_results \<Rightarrow>
          Inr (PDict [(''type'', args_get args ''type''),
                 (''streaks'', PList (map streak_json
                    (sort_desc s_streak
                       (streak_rows (args_get args ''type'') team_results))))], 200))"
  using assms
  by (auto simp add: streaks_def valid_streak_type_def streaks_call_def jsonify_def Let_def
      split: sum.splits)

subsection \<open>Validation of the streak type\<close>

lemma three_matches_ok: "list_all (\<lambda>m. ids_usable m \<and> score_ok m) three_matches"
  by code_simp

lemma dd_distinct_append: "dd_distinct st \<Longrightarrow> dd_distinct (dd_append k x st)"
  by (simp add: dd_append_def dd_distinct_modify dd_distinct_touch)

lemma streak_match_distinct:
  "streak_match ty m st = Inr st' \<Longrightarrow> dd_distinct st \<Longrightarrow> dd_distinct st'"
  by (auto simp: streak_match_def Let_def dd_distinct_append split: sum.splits if_splits)

lemma streak_loop_distinct:
  "streak_loop ty ms st = Inr st' \<Longrightarrow> dd_distinct st \<Longrightarrow> dd_distinct st'"
  by (induction ms arbitrary: st) (auto split: sum.splits dest: streak_match_distinct)

lemma sort_desc_props:
  "mset (sort_desc f xs) = mset xs"
  "sorted_wrt (\<lambda>x y. f x \<ge> f y) (sort_desc f xs)"
proof -
  show "mset (sort_desc f xs) = mset xs" by (simp add: sort_desc_def)
  have "sorted (map (\<lambda>x. - f x) (sort_key (\<lambda>x. - f x) xs))" by (rule sorted_sort_key)
  then show "sorted_wrt (\<lambda>x y. f x \<ge> f y) (sort_desc f xs)"
    by (simp add: sort_desc_def sorted_map)
qed

lemma streak_rows_pinned:
  assumes "dd_distinct tr"
  shows "map s_team_id (streak_rows ty tr) = map fst tr"
    and "\<forall>r\<in>set (streak_rows ty tr).
           s_streak r = longest_streak (results_of tr (s_team_id r)) (streak_target ty)"
proof -
  show "map s_team_id (streak_rows ty tr) = map fst tr"
    by (simp add: streak_rows_def case_prod_beta)
  show "\<forall>r\<in>set (streak_rows ty tr).
           s_streak r = longest_streak (results_of tr (s_team_id r)) (streak_target ty)"
  proof
    fix r assume "r \<in> set (streak_rows ty tr)"
    then obtain k xs where kx: "(k, xs) \<in> set tr"
      and r: "r = \<lparr>s_team_id = k, s_streak = longest_streak xs (streak_target ty)\<rparr>"
      by (auto simp: streak_rows_def)
    from dd_distinct_lookup [OF assms kx] have "results_of tr k = xs"
      by (simp add: results_of_def)
    then show "s_streak r = longest_streak (results_of tr (s_team_id r)) (streak_target ty)"
      by (simp add: r)
  qed
qed

lemma streaks_rows:
  assumes v: "valid_streak_type (args_get args ''type'')"
    and res: "snd (streaks db args) = Inr (body, status)"
  shows "status = 200 \<and>
    (\<exists>tr rows. streak_loop (args_get args ''type'') (db (streaks_call args)) [] = Inr tr
       \<and> body = PDict [(''type'', args_get args ''type''),
                       (''streaks'', PList (map streak_json rows))]
       \<and> mset (map s_team_id rows) = mset (map fst tr)
       \<and> by_streak_desc rows
       \<and> (\<forall>r\<in>set rows. s_streak r
             = longest_streak (results_of tr (s_team_id r))
                 (streak_target (args_get args ''type''))))"
proof -
  let ?ty = "args_get args ''type''"
  from res obtain tr where tr: "streak_loop ?ty (db (streaks_call args)) [] = Inr tr"
    and out: "(body, status) = (PDict [(''type'', ?ty),
        (''streaks'', PList (map streak_json (sort_desc s_streak (streak_rows ?ty tr))))], 200)"
    by (auto simp: streaks_valid [OF v] split: sum.splits)
  have d: "dd_distinct tr"
    using streak_loop_distinct [OF tr] by (simp add: dd_distinct_def)
  let ?rows = "sort_desc s_streak (streak_rows ?ty tr)"
  have m: "mset ?rows = mset (streak_rows ?ty tr)" by (rule sort_desc_props)
  have "mset (map s_team_id ?rows) = mset (map s_team_id (streak_rows ?ty tr))"
    using m by (metis mset_map)
  then have ids: "mset (map s_team_id ?rows) = mset (map fst tr)"
    by (simp add: streak_rows_pinned(1) [OF d])
  have srt: "by_streak_desc ?rows"
    unfolding by_streak_desc_def by (rule sort_desc_props)
  have "set ?rows = set (streak_rows ?ty tr)" using m by (metis set_mset_mset)
  with streak_rows_pinned(2) [OF d, of ?ty]
  have each: "\<forall>r\<in>set ?rows. s_streak r
      = longest_streak (results_of tr (s_team_id r)) (streak_target ?ty)"
    by simp
  from out have "status = 200" and
    "body = PDict [(''type'', ?ty), (''streaks'', PList (map streak_json ?rows))]"
    by simp_all
  with tr ids srt each show ?thesis by blast
qed

lemma streak_match_result:
  assumes "has_teams m"
    and "parse_score (dget_default m ''score'' (PDict [])) = Inr (hg, ag)"
    and "ty \<noteq> PStr ''clean_sheet''"
  shows "\<exists>st'. streak_match ty m st = Inr st' \<and>
     (\<forall>t. results_of st' t =
        results_of st t
        @ (if key_norm t = key_norm (dget m ''home_team_id'')
           then [result_symbol hg ag] else [])
        @ (if key_norm t = key_norm (dget m ''away_team_id'')
           then [result_symbol ag hg] else []))"
  using assms
  by (simp add: streak_match_def Let_def has_teams_def results_of_append)

lemma streaks_bad_score:
  "valid_streak_type (args_get [(''type'', ''win'')] ''type'')"
  "streaks (\<lambda>call. [match_bad_score]) [(''type'', ''win'')]
     = ([streaks_call [(''type'', ''win'')]], Inl ValueError)"
  by (simp_all add: valid_streak_type_def args_get_def streaks_valid streak_match_def
      bad_score_raises Let_def)

lemma streaks_example:
  "streaks (\<lambda>call. three_matches) clean_sheet_args
     = ([streaks_call clean_sheet_args],
        Inr (PDict [(''type'', PStr ''clean_sheet''),
                    (''streaks'',
                     PList [PDict [(''team_id'', PStr ''A''), (''streak'', PInt 1)],
                            PDict [(''team_id'', PStr ''B''), (''streak'', PInt 1)]])],
             200))"
  by code_simp

text \<open>
  C8. The route \<^verbatim>\<open>streaks\<close> answers with the 422 \<^verbatim>\<open>VALIDATION_ERROR\<close> exactly when
  the \<^verbatim>\<open>type\<close> parameter is none of \<^verbatim>\<open>win\<close>, \<^verbatim>\<open>loss\<close>, \<^verbatim>\<open>clean_sheet\<close>, and then
  it has issued no read of the store and its body is the error alone. For a valid type it
  issues the one read of the matches, and every response it returns has status 200 and
  the body \<^verbatim>\<open>{type, streaks: [{team_id, streak}]}\<close> with one row per team of the
  accumulator, each with the longest streak of the team's sequence for the target symbol
  of the type, in descending order of the streak; for \<^verbatim>\<open>win\<close> and \<^verbatim>\<open>loss\<close> a match
  appends the result symbol of each side to its team's sequence. It returns a response
  whenever the matches read have usable team ids and scores that score extraction returns
  a pair for. It does not return one for every valid type: on a match whose stored score
  is \<^verbatim>\<open>{"fulltime": {"home": "x", "away": 1}}\<close> the route raises \<^verbatim>\<open>ValueError\<close>
  after its read. The last part is the specification's example of three matches.
\<close>

theorem streaks_validation:
  "(\<not> valid_streak_type (args_get args ''type'') \<longrightarrow>
      streaks db args =
        ([], Inr (error_response ''VALIDATION_ERROR''
                   ''type must be win, loss, or clean_sheet'' 422)))
   \<and> (valid_streak_type (args_get args ''type'') \<longrightarrow>
        fst (streaks db args) = [streaks_call args]
        \<and> (\<forall>body status. snd (streaks db args) = Inr (body, status) \<longrightarrow>
              status = 200
              \<and> (\<exists>tr rows.
                    streak_loop (args_get args ''type'') (db (streaks_call args)) [] = Inr tr
                    \<and> body = PDict [(''type'', args_get args ''type''),
                                    (''streaks'', PList (map streak_json rows))]
                    \<and> mset (map s_team_id rows) = mset (map fst tr)
                    \<and> by_streak_desc rows
                    \<and> (\<forall>r\<in>set rows. s_streak r
                          = longest_streak (results_of tr (s_team_id r))
                              (streak_target (args_get args ''type''))))))
   \<and> ((\<exists>body. snd (streaks db args) = Inr (body, 422))
        \<longleftrightarrow> \<not> valid_streak_type (args_get args ''type''))
   \<and> (valid_streak_type (args_get args ''type'')
        \<and> (\<forall>m\<in>set (db (streaks_call args)). ids_usable m \<and> score_ok m) \<longrightarrow>
        (\<exists>rows. snd (streaks db args) =
           Inr (PDict [(''type'', args_get args ''type''),
                       (''streaks'', PList (map streak_json rows))], 200)))
   \<and> (has_teams m \<and> parse_score (dget_default m ''score'' (PDict [])) = Inr (hg, ag)
        \<and> ty \<noteq> PStr ''clean_sheet'' \<longrightarrow>
        (\<exists>st'. streak_match ty m st = Inr st' \<and>
           (\<forall>t. results_of st' t =
              results_of st t
              @ (if key_norm t = key_norm (dget m ''home_team_id'')
                 then [result_symbol hg ag] else [])
              @ (if key_norm t = key_norm (dget m ''away_team_id'')
                 then [result_symbol ag hg] else []))))
   \<and> valid_streak_type (args_get [(''type'', ''win'')] ''type'')
   \<and> has_teams match_bad_score
   \<and> streaks (\<lambda>call. [match_bad_score]) [(''type'', ''win'')]
        = ([streaks_call [(''type'', ''win'')]], Inl ValueError)
   \<and> streaks (\<lambda>call. three_matches) clean_sheet_args
        = ([streaks_call clean_sheet_args],
           Inr (PDict [(''type'', PStr ''clean_sheet''),
                       (''streaks'',
                        PList [PDict [(''team_id'', PStr ''A''), (''streak'', PInt 1)],
                               PDict [(''team_id'', PStr ''B''), (''streak'', PInt 1)]])],
                200))"
proof -
  have c1: "\<not> valid_streak_type (args_get args ''type'') \<longrightarrow>
      streaks db args =
        ([], Inr (error_response ''VALIDATION_ERROR''
                   ''type must be win, loss, or clean_sheet'' 422))"
    by (simp add: streaks_invalid)
  have c2: "valid_streak_type (args_get args ''type'') \<longrightarrow>
        fst (streaks db args) = [streaks_call args]
        \<and> (\<forall>body status. snd (streaks db args) = Inr (body, status) \<longrightarrow>
              status = 200
              \<and> (\<exists>tr rows.
                    streak_loop (args_get args ''type'') (db (streaks_call args)) [] = Inr tr
                    \<and> body = PDict [(''type'', args_get args ''type''),
                                    (''streaks'', PList (map streak_json rows))]
                    \<and> mset (map s_team_id rows) = mset (map fst tr)
                    \<and> by_streak_desc rows
                    \<and> (\<forall>r\<in>set rows. s_streak r
                          = longest_streak (results_of tr (s_team_id r))
                              (streak_target (args_get args ''type'')))))"
  proof (intro impI conjI allI)
    assume "valid_streak_type (args_get args ''type'')"
    then show "fst (streaks db args) = [streaks_call args]" by (simp add: streaks_valid)
  next
    fix body status
    assume "valid_streak_type (args_get args ''type'')"
      and "snd (streaks db args) = Inr (body, status)"
    from streaks_rows [OF this] show "status = 200" by blast
  next
    fix body status
    assume "valid_streak_type (args_get args ''type'')"
      and "snd (streaks db args) = Inr (body, status)"
    from streaks_rows [OF this] show "\<exists>tr rows.
        streak_loop (args_get args ''type'') (db (streaks_call args)) [] = Inr tr
        \<and> body = PDict [(''type'', args_get args ''type''),
                        (''streaks'', PList (map streak_json rows))]
        \<and> mset (map s_team_id rows) = mset (map fst tr)
        \<and> by_streak_desc rows
        \<and> (\<forall>r\<in>set rows. s_streak r
              = longest_streak (results_of tr (s_team_id r))
                  (streak_target (args_get args ''type'')))"
      by blast
  qed
  have c3: "(\<exists>body. snd (streaks db args) = Inr (body, 422))
        \<longleftrightarrow> \<not> valid_streak_type (args_get args ''type'')"
  proof (cases "valid_streak_type (args_get args ''type'')")
    case True
    then show ?thesis by (auto simp: streaks_valid split: sum.splits)
  next
    case False
    then show ?thesis by (simp add: streaks_invalid error_response_def)
  qed
  have c4: "valid_streak_type (args_get args ''type'')
        \<and> (\<forall>m\<in>set (db (streaks_call args)). ids_usable m \<and> score_ok m) \<longrightarrow>
        (\<exists>rows. snd (streaks db args) =
           Inr (PDict [(''type'', args_get args ''type''),
                       (''streaks'', PList (map streak_json rows))], 200))"
  proof
    assume a: "valid_streak_type (args_get args ''type'')
        \<and> (\<forall>m\<in>set (db (streaks_call args)). ids_usable m \<and> score_ok m)"
    then obtain tr where
      "streak_loop (args_get args ''type'') (db (streaks_call args)) [] = Inr tr"
      using streak_loop_returns [of "db (streaks_call args)" "args_get args ''type''" "[]"]
      by blast
    with a show "\<exists>rows. snd (streaks db args) =
           Inr (PDict [(''type'', args_get args ''type''),
                       (''streaks'', PList (map streak_json rows))], 200)"
      by (auto simp: streaks_valid)
  qed
  have c5: "has_teams m \<and> parse_score (dget_default m ''score'' (PDict [])) = Inr (hg, ag)
        \<and> ty \<noteq> PStr ''clean_sheet'' \<longrightarrow>
        (\<exists>st'. streak_match ty m st = Inr st' \<and>
           (\<forall>t. results_of st' t =
              results_of st t
              @ (if key_norm t = key_norm (dget m ''home_team_id'')
                 then [result_symbol hg ag] else [])
              @ (if key_norm t = key_norm (dget m ''away_team_id'')
                 then [result_symbol ag hg] else [])))"
    using streak_match_result [of m hg ag ty st] by blast
  from c1 c2 c3 c4 c5 streaks_bad_score(1) bad_score_raises(1) streaks_bad_score(2)
    streaks_example
  show ?thesis by (intro conjI)
qed

theorem streaks_validation_witness:
  "\<not> valid_streak_type (args_get [(''type'', ''draw'')] ''type'')
   \<and> streaks (\<lambda>call. three_matches) [(''type'', ''draw'')] =
        ([], Inr (error_response ''VALIDATION_ERROR''
                   ''type must be win, loss, or clean_sheet'' 422))
   \<and> \<not> valid_streak_type (args_get [] ''type'')
   \<and> fst (streaks (\<lambda>call. three_matches) []) = []
   \<and> valid_streak_type (args_get clean_sheet_args ''type'')
   \<and> list_all (\<lambda>m. ids_usable m \<and> score_ok m) three_matches
   \<and> fst (streaks (\<lambda>call. three_matches) clean_sheet_args) = [streaks_call clean_sheet_args]
   \<and> (\<exists>rows. snd (streaks (\<lambda>call. three_matches) clean_sheet_args) =
           Inr (PDict [(''type'', PStr ''clean_sheet''),
                       (''streaks'', PList (map streak_json rows))], 200))
   \<and> (\<exists>tr rows. streak_loop (PStr ''clean_sheet'') three_matches [] = Inr tr
         \<and> mset (map s_team_id rows) = mset (map fst tr)
         \<and> by_streak_desc rows
         \<and> map streak_json rows
             = [PDict [(''team_id'', PStr ''A''), (''streak'', PInt 1)],
                PDict [(''team_id'', PStr ''B''), (''streak'', PInt 1)]])"
proof -
  have bad: "\<not> valid_streak_type (args_get [(''type'', ''draw'')] ''type'')"
    "\<not> valid_streak_type (args_get [] ''type'')"
    by (simp_all add: valid_streak_type_def args_get_def)
  have good: "valid_streak_type (args_get clean_sheet_args ''type'')"
    and ty: "args_get clean_sheet_args ''type'' = PStr ''clean_sheet''"
    by (simp_all add: valid_streak_type_def args_get_def clean_sheet_args_def)
  have ok: "\<forall>m\<in>set ((\<lambda>call. three_matches) (streaks_call clean_sheet_args)).
              ids_usable m \<and> score_ok m"
    using three_matches_ok by (simp add: list_all_iff)
  note t1 = streaks_validation [of "[(''type'', ''draw'')]" "\<lambda>call. three_matches"]
  note t2 = streaks_validation [of "[]" "\<lambda>call. three_matches"]
  note t3 = streaks_validation [of clean_sheet_args "\<lambda>call. three_matches"]
  note a = t1 [THEN conjunct1, THEN mp, OF bad(1)]
  have b: "fst (streaks (\<lambda>call. three_matches) []) = []"
    by (simp add: t2 [THEN conjunct1, THEN mp, OF bad(2)])
  note valid = t3 [THEN conjunct2, THEN conjunct1, THEN mp, OF good]
  note c = valid [THEN conjunct1]
  note returns = t3 [THEN conjunct2, THEN conjunct2, THEN conjunct2, THEN conjunct1, THEN mp,
      OF conjI, OF good ok]
  have d: "\<exists>rows. snd (streaks (\<lambda>call. three_matches) clean_sheet_args) =
           Inr (PDict [(''type'', PStr ''clean_sheet''),
                       (''streaks'', PList (map streak_json rows))], 200)"
    using returns unfolding ty .
  let ?rows = "[PDict [(''team_id'', PStr ''A''), (''streak'', PInt 1)],
                PDict [(''team_id'', PStr ''B''), (''streak'', PInt 1)]]"
  let ?body = "PDict [(''type'', PStr ''clean_sheet''), (''streaks'', PList ?rows)]"
  have res: "snd (streaks (\<lambda>call. three_matches) clean_sheet_args) = Inr (?body, 200)"
    by (simp only: streaks_example snd_conv)
  note pinned = valid [THEN conjunct2, THEN spec, THEN spec, THEN mp, OF res,
      THEN conjunct2, unfolded ty]
  from pinned obtain tr rows where
    tr: "streak_loop (PStr ''clean_sheet'') three_matches [] = Inr tr"
    and body: "?body = PDict [(''type'', PStr ''clean_sheet''),
                             (''streaks'', PList (map streak_json rows))]"
    and ids: "mset (map s_team_id rows) = mset (map fst tr)"
    and srt: "by_streak_desc rows"
    by (elim exE conjE)
  from body have "map streak_json rows = ?rows"
    by (simp only: pyval.inject list.inject prod.inject)
  with tr ids srt have e: "\<exists>tr rows. streak_loop (PStr ''clean_sheet'') three_matches [] = Inr tr
         \<and> mset (map s_team_id rows) = mset (map fst tr)
         \<and> by_streak_desc rows
         \<and> map streak_json rows = ?rows"
    by (intro exI [of _ tr] exI [of _ rows] conjI)
  from bad(1) a bad(2) b good three_matches_ok c d e show ?thesis by (intro conjI)
qed

subsection \<open>Goal counts of the leaderboard\<close>

lemma count_event_counts:
  assumes "event_ok ev"
  shows "\<exists>gc'. count_event ev gc = Inr gc'
     \<and> (\<forall>p. goals_counted gc' p = goals_counted gc p + (if scored_by p ev then 1 else 0))
     \<and> (\<forall>p. dd_lookup gc' p = None \<longleftrightarrow> dd_lookup gc p = None \<and> \<not> scored_by p ev)
     \<and> (\<not> goal_event ev \<longrightarrow> gc' = gc)"
proof -
  from assms obtain e where ev: "ev = PDict e" and h: "hashable (dget e ''player_id'')"
    by (auto simp: event_ok_def split: pyval.splits)
  show ?thesis
  proof (cases "is_goal_event e")
    case True
    with h show ?thesis
      by (auto simp: ev count_event_def Let_def goals_counted_def scored_by_def goal_event_def
          is_goal_event_def dd_lookup_modify dd_lookup_touch split: option.splits)
  next
    case False
    then show ?thesis
      by (auto simp: ev count_event_def scored_by_def goal_event_def is_goal_event_def)
  qed
qed

lemma count_events_counts:
  assumes "list_all event_ok evs"
  shows "\<exists>gc'. count_events evs gc = Inr gc'
     \<and> (\<forall>p. goals_counted gc' p = goals_counted gc p + int (length (filter (scored_by p) evs)))
     \<and> (\<forall>p. dd_lookup gc' p = None \<longleftrightarrow> dd_lookup gc p = None \<and> filter (scored_by p) evs = [])
     \<and> ((\<forall>ev\<in>set evs. \<not> goal_event ev) \<longrightarrow> gc' = gc)"
  using assms
proof (induction evs arbitrary: gc)
  case Nil
  show ?case by simp
next
  case (Cons ev evs)
  from Cons.prems have ok: "event_ok ev" "list_all event_ok evs" by simp_all
  from count_event_counts [OF ok(1), of gc] obtain gc1 where
    s1: "count_event ev gc = Inr gc1"
    and c1: "\<And>p. goals_counted gc1 p = goals_counted gc p + (if scored_by p ev then 1 else 0)"
    and n1: "\<And>p. dd_lookup gc1 p = None \<longleftrightarrow> dd_lookup gc p = None \<and> \<not> scored_by p ev"
    and e1: "\<not> goal_event ev \<longrightarrow> gc1 = gc"
    by blast
  from Cons.IH [OF ok(2), of gc1] obtain gc' where
    s2: "count_events evs gc1 = Inr gc'"
    and c2: "\<And>p. goals_counted gc' p
               = goals_counted gc1 p + int (length (filter (scored_by p) evs))"
    and n2: "\<And>p. dd_lookup gc' p = None
               \<longleftrightarrow> dd_lookup gc1 p = None \<and> filter (scored_by p) evs = []"
    and e2: "(\<forall>ev\<in>set evs. \<not> goal_event ev) \<longrightarrow> gc' = gc1"
    by blast
  have "count_events (ev # evs) gc = Inr gc'" by (simp add: s1 s2)
  moreover have "\<forall>p. goals_counted gc' p
      = goals_counted gc p + int (length (filter (scored_by p) (ev # evs)))"
    by (simp add: c1 c2)
  moreover have "\<forall>p. dd_lookup gc' p = None
      \<longleftrightarrow> dd_lookup gc p = None \<and> filter (scored_by p) (ev # evs) = []"
    by (simp add: n1 n2)
  moreover have "(\<forall>ev'\<in>set (ev # evs). \<not> goal_event ev') \<longrightarrow> gc' = gc"
    using e1 e2 by simp
  ultimately show ?case by blast
qed

lemma count_goals_counts:
  assumes "\<forall>m\<in>set ms. events_ok m"
  shows "\<exists>gc'. count_goals ms gc = Inr gc'
     \<and> (\<forall>p. goals_counted gc' p = goals_counted gc p + goals_of p ms)
     \<and> (\<forall>p. dd_lookup gc' p = None \<longleftrightarrow> dd_lookup gc p = None \<and> goals_of p ms = 0)
     \<and> ((\<forall>m\<in>set ms. \<forall>ev\<in>set (events_of m). \<not> goal_event ev) \<longrightarrow> gc' = gc)"
  using assms
proof (induction ms arbitrary: gc)
  case Nil
  show ?case by (simp add: goals_of_def)
next
  case (Cons m ms)
  from Cons.prems have "events_ok m" by simp
  then obtain evs where it: "iter_values (dget_default m ''events'' (PList [])) = Inr evs"
    and ok: "list_all event_ok evs"
    by (auto simp: events_ok_def split: sum.splits)
  have evs: "events_of m = evs" by (simp add: events_of_def it)
  from count_events_counts [OF ok, of gc] obtain gc1 where
    s1: "count_events evs gc = Inr gc1"
    and c1: "\<And>p. goals_counted gc1 p
               = goals_counted gc p + int (length (filter (scored_by p) evs))"
    and n1: "\<And>p. dd_lookup gc1 p = None
               \<longleftrightarrow> dd_lookup gc p = None \<and> filter (scored_by p) evs = []"
    and e1: "(\<forall>ev\<in>set evs. \<not> goal_event ev) \<longrightarrow> gc1 = gc"
    by blast
  from Cons.IH [of gc1] Cons.prems obtain gc' where
    s2: "count_goals ms gc1 = Inr gc'"
    and c2: "\<And>p. goals_counted gc' p = goals_counted gc1 p + goals_of p ms"
    and n2: "\<And>p. dd_lookup gc' p = None \<longleftrightarrow> dd_lookup gc1 p = None \<and> goals_of p ms = 0"
    and e2: "(\<forall>m\<in>set ms. \<forall>ev\<in>set (events_of m). \<not> goal_event ev) \<longrightarrow> gc' = gc1"
    by auto
  have split: "\<And>p. goals_of p (m # ms) = int (length (filter (scored_by p) evs)) + goals_of p ms"
    by (simp add: goals_of_def evs)
  have "count_goals (m # ms) gc = Inr gc'" by (simp add: it s1 s2)
  moreover have "\<forall>p. goals_counted gc' p = goals_counted gc p + goals_of p (m # ms)"
    by (simp add: c1 c2 split)
  moreover have "\<forall>p. dd_lookup gc' p = None
      \<longleftrightarrow> dd_lookup gc p = None \<and> goals_of p (m # ms) = 0"
  proof
    fix p
    have "0 \<le> goals_of p ms" by (simp add: goals_of_def)
    moreover have "0 \<le> int (length (filter (scored_by p) evs))" by simp
    moreover have "int (length (filter (scored_by p) evs)) = 0
        \<longleftrightarrow> filter (scored_by p) evs = []" by simp
    ultimately have "goals_of p (m # ms) = 0
        \<longleftrightarrow> filter (scored_by p) evs = [] \<and> goals_of p ms = 0"
      unfolding split by linarith
    then show "dd_lookup gc' p = None
        \<longleftrightarrow> dd_lookup gc p = None \<and> goals_of p (m # ms) = 0"
      by (auto simp add: n1 n2)
  qed
  moreover have "(\<forall>m'\<in>set (m # ms). \<forall>ev\<in>set (events_of m'). \<not> goal_event ev) \<longrightarrow> gc' = gc"
    using e1 e2 by (simp add: evs)
  ultimately show ?case by blast
qed

lemma top_scorers_no_goals:
  assumes limit: "py_int (args_get_default args ''limit'' (PInt 20)) = Inr limit"
    and quiet: "\<forall>m\<in>set (db (scorers_call args)).
                  events_ok m \<and> (\<forall>ev\<in>set (events_of m). \<not> goal_event ev)"
  shows "top_scorers db args = ([scorers_call args], Inr (PDict [(''leaders'', PList [])], 200))"
proof -
  from quiet have ok: "\<forall>m\<in>set (db (scorers_call args)). events_ok m" by blast
  from count_goals_counts [OF ok, of "[]"] quiet
  have "count_goals (db (scorers_call args)) [] = Inr []" by blast
  with limit show ?thesis
    by (simp add: top_scorers_def scorers_call_def jsonify_def Let_def)
qed

lemma scoring_match_facts:
  "events_ok scoring_match"
  "goals_of (PStr ''p1'') [scoring_match] = 2"
  "goals_of (PStr ''p2'') [scoring_match] = 0"
  by code_simp+

lemma quiet_match_facts:
  "list_all (\<lambda>m. events_ok m \<and> list_all (\<lambda>ev. \<not> goal_event ev) (events_of m)) [quiet_match, []]"
  by code_simp

lemma count_event_distinct:
  "count_event ev gc = Inr gc' \<Longrightarrow> dd_distinct gc \<Longrightarrow> dd_distinct gc'"
  by (auto simp: count_event_def Let_def dd_distinct_modify dd_distinct_touch
      split: pyval.splits if_splits)

lemma count_events_distinct:
  "count_events evs gc = Inr gc' \<Longrightarrow> dd_distinct gc \<Longrightarrow> dd_distinct gc'"
  by (induction evs arbitrary: gc) (auto split: sum.splits dest: count_event_distinct)

lemma count_goals_distinct:
  "count_goals ms gc = Inr gc' \<Longrightarrow> dd_distinct gc \<Longrightarrow> dd_distinct gc'"
  by (induction ms arbitrary: gc) (auto split: sum.splits dest: count_events_distinct)

lemma index_players_returns:
  "\<forall>d\<in>set ds. player_ok d \<Longrightarrow> \<exists>pd'. index_players ds pd = Inr pd'"
  by (induction ds arbitrary: pd) (auto simp: player_ok_def split: option.splits)

lemma goal_event_scored:
  assumes "goal_event ev"
  shows "\<exists>p. scored_by p ev"
proof -
  from assms obtain e where "ev = PDict e" by (cases ev) (simp_all add: goal_event_def)
  with assms have "scored_by (dget e ''player_id'') ev" by (simp add: scored_by_def)
  then show ?thesis ..
qed

lemma goals_of_pos:
  assumes "m \<in> set ms" "ev \<in> set (events_of m)" "scored_by p ev"
  shows "0 < goals_of p ms"
proof -
  from assms have "ev \<in> set (filter (scored_by p) (concat (map events_of ms)))" by auto
  then have "filter (scored_by p) (concat (map events_of ms)) \<noteq> []" by force
  then show ?thesis by (simp add: goals_of_def)
qed

lemma leader_rows_pinned:
  assumes d: "dd_distinct gc"
    and c: "\<And>p. goals_counted gc p = goals_of p ms"
    and n: "\<And>p. dd_lookup gc p = None \<longleftrightarrow> goals_of p ms = 0"
  shows "map l_player_id (leader_rows pd gc) = map fst gc"
    and "\<forall>r\<in>set (leader_rows pd gc).
           l_goals r = goals_of (l_player_id r) ms \<and> 0 < l_goals r
           \<and> l_name r = dget (case dd_lookup pd (l_player_id r) of None \<Rightarrow> [] | Some d \<Rightarrow> d)
                           ''name''"
proof -
  show "map l_player_id (leader_rows pd gc) = map fst gc"
    by (simp add: leader_rows_def case_prod_beta)
  show "\<forall>r\<in>set (leader_rows pd gc).
           l_goals r = goals_of (l_player_id r) ms \<and> 0 < l_goals r
           \<and> l_name r = dget (case dd_lookup pd (l_player_id r) of None \<Rightarrow> [] | Some d \<Rightarrow> d)
                           ''name''"
  proof
    fix r assume "r \<in> set (leader_rows pd gc)"
    then obtain k g where kg: "(k, g) \<in> set gc"
      and r: "r = \<lparr>l_player_id = k,
             l_name = dget (case dd_lookup pd k of None \<Rightarrow> [] | Some d \<Rightarrow> d) ''name'',
             l_goals = g\<rparr>"
      by (auto simp: leader_rows_def)
    from dd_distinct_lookup [OF d kg] have l: "dd_lookup gc k = Some g" .
    then have "goals_counted gc k = g" by (simp add: goals_counted_def)
    with c have g: "g = goals_of k ms" by simp
    from l n [of k] have "goals_of k ms \<noteq> 0" by simp
    moreover have "0 \<le> goals_of k ms" by (simp add: goals_of_def)
    ultimately have "0 < goals_of k ms" by simp
    with g show "l_goals r = goals_of (l_player_id r) ms \<and> 0 < l_goals r
           \<and> l_name r = dget (case dd_lookup pd (l_player_id r) of None \<Rightarrow> [] | Some d \<Rightarrow> d)
                           ''name''"
      by (simp add: r)
  qed
qed

lemma top_scorers_leaders:
  assumes limit: "py_int (args_get_default args ''limit'' (PInt 20)) = Inr limit"
    and ok: "\<forall>m\<in>set (db (scorers_call args)). events_ok m"
    and goal: "\<exists>m\<in>set (db (scorers_call args)). \<exists>ev\<in>set (events_of m). goal_event ev"
    and players: "\<forall>call. coll call = ''players'' \<longrightarrow> (\<forall>d\<in>set (db call). player_ok d)"
  shows "\<exists>gc pd leaders.
     count_goals (db (scorers_call args)) [] = Inr gc
     \<and> index_players (db (players_call gc)) [] = Inr pd
     \<and> top_scorers db args =
         ([scorers_call args, players_call gc],
          Inr (PDict [(''leaders'', PList (map leader_json (slice_to limit leaders)))], 200))
     \<and> mset (map l_player_id leaders) = mset (map fst gc)
     \<and> by_goals_desc leaders
     \<and> (\<forall>r\<in>set leaders.
           l_goals r = goals_of (l_player_id r) (db (scorers_call args)) \<and> 0 < l_goals r
           \<and> l_name r = dget (case dd_lookup pd (l_player_id r) of None \<Rightarrow> [] | Some d \<Rightarrow> d)
                           ''name'')
     \<and> (\<forall>p. dd_lookup gc p = None \<longleftrightarrow> goals_of p (db (scorers_call args)) = 0)"
proof -
  let ?ms = "db (scorers_call args)"
  from count_goals_counts [OF ok, of "[]"] obtain gc where
    gc: "count_goals ?ms [] = Inr gc"
    and c: "\<And>p. goals_counted gc p = goals_of p ?ms"
    and n: "\<And>p. dd_lookup gc p = None \<longleftrightarrow> goals_of p ?ms = 0"
    by (auto simp: goals_counted_def)
  have d: "dd_distinct gc"
    using count_goals_distinct [OF gc] by (simp add: dd_distinct_def)
  from goal obtain m ev where mev: "m \<in> set ?ms" "ev \<in> set (events_of m)" "goal_event ev"
    by blast
  from mev(3) obtain p where p: "scored_by p ev" using goal_event_scored by blast
  from mev(1,2) p have "0 < goals_of p ?ms" by (rule goals_of_pos)
  with n [of p] have "dd_lookup gc p \<noteq> None" by simp
  then have ne: "gc \<noteq> []" by auto
  have "coll (players_call gc) = ''players''" by (simp add: players_call_def)
  with players have "\<forall>d\<in>set (db (players_call gc)). player_ok d" by blast
  from index_players_returns [OF this, of "[]"] obtain pd where
    pd: "index_players (db (players_call gc)) [] = Inr pd" ..
  let ?leaders = "sort_desc l_goals (leader_rows pd gc)"
  have route: "top_scorers db args =
         ([scorers_call args, players_call gc],
          Inr (PDict [(''leaders'', PList (map leader_json (slice_to limit ?leaders)))], 200))"
    using limit gc ne pd
    by (simp add: top_scorers_def Let_def jsonify_def
        scorers_call_def [symmetric] players_call_def [symmetric])
  have m: "mset ?leaders = mset (leader_rows pd gc)" by (rule sort_desc_props)
  have "mset (map l_player_id ?leaders) = mset (map l_player_id (leader_rows pd gc))"
    using m by (metis mset_map)
  then have ids: "mset (map l_player_id ?leaders) = mset (map fst gc)"
    by (simp add: leader_rows_pinned(1) [OF d c n])
  have srt: "by_goals_desc ?leaders"
    unfolding by_goals_desc_def by (rule sort_desc_props)
  have "set ?leaders = set (leader_rows pd gc)" using m by (metis set_mset_mset)
  then have each: "\<forall>r\<in>set ?leaders.
           l_goals r = goals_of (l_player_id r) ?ms \<and> 0 < l_goals r
           \<and> l_name r = dget (case dd_lookup pd (l_player_id r) of None \<Rightarrow> [] | Some d \<Rightarrow> d)
                           ''name''"
    using leader_rows_pinned(2) [OF d c n, of pd] by (simp only:)
  from gc pd route ids srt each n show ?thesis by blast
qed

lemma top_scorers_example:
  "top_scorers scorers_store [] =
     ([scorers_call [], players_call [(PStr ''p1'', 2)]],
      Inr (PDict [(''leaders'',
             PList [PDict [(''player_id'', PStr ''p1''), (''name'', PStr ''Ann''),
                           (''goals'', PInt 2)]])],
           200))"
  by code_simp

lemma scorers_store_facts:
  "list_all events_ok (scorers_store (scorers_call []))"
  "list_ex (\<lambda>m. list_ex goal_event (events_of m)) (scorers_store (scorers_call []))"
  "goals_of (PStr ''p1'') (scorers_store (scorers_call [])) = 2"
  by code_simp+

lemma scorers_store_players:
  "\<forall>call. coll call = ''players'' \<longrightarrow> (\<forall>d\<in>set (scorers_store call). player_ok d)"
  by (simp add: scorers_store_def player_ok_def)

text \<open>
  C6. Over matches with well-formed events, the leaderboard builder's counter of a player
  is the number of events whose type equals \<^verbatim>\<open>"goal"\<close> and whose non-empty player id is
  that player, one per such event, and a player has a counter exactly when that number is
  not zero. When the matches read hold no such event (and \<^verbatim>\<open>limit\<close> is an integer), the
  route returns \<^verbatim>\<open>{"leaders": []}\<close> and the read of the matches is the only read it
  has issued: there is no player lookup. When they hold one, the route reads the players
  it counted goals for and returns, cut to \<^verbatim>\<open>limit\<close>, one leader per such player in
  descending order of goals, each with the number of the player's goal events as its
  goals and the name of the player's document, if any, as its name. The last part is a
  store with two goal events of one player.
\<close>

theorem top_scorers_counts:
  "((\<forall>m\<in>set matches. events_ok m) \<longrightarrow>
      (\<exists>gc. count_goals matches [] = Inr gc
         \<and> (\<forall>p. goals_counted gc p = goals_of p matches)
         \<and> (\<forall>p. dd_lookup gc p = None \<longleftrightarrow> goals_of p matches = 0)))
   \<and> (py_int (args_get_default args ''limit'' (PInt 20)) = Inr limit
       \<and> (\<forall>m\<in>set (db (scorers_call args)).
             events_ok m \<and> (\<forall>ev\<in>set (events_of m). \<not> goal_event ev)) \<longrightarrow>
       top_scorers db args
         = ([scorers_call args], Inr (PDict [(''leaders'', PList [])], 200)))
   \<and> (py_int (args_get_default args ''limit'' (PInt 20)) = Inr limit
       \<and> (\<forall>m\<in>set (db (scorers_call args)). events_ok m)
       \<and> (\<exists>m\<in>set (db (scorers_call args)). \<exists>ev\<in>set (events_of m). goal_event ev)
       \<and> (\<forall>call. coll call = ''players'' \<longrightarrow> (\<forall>d\<in>set (db call). player_ok d)) \<longrightarrow>
       (\<exists>gc pd leaders.
          count_goals (db (scorers_call args)) [] = Inr gc
          \<and> index_players (db (players_call gc)) [] = Inr pd
          \<and> top_scorers db args =
              ([scorers_call args, players_call gc],
               Inr (PDict [(''leaders'', PList (map leader_json (slice_to limit leaders)))],
                    200))
          \<and> mset (map l_player_id leaders) = mset (map fst gc)
          \<and> by_goals_desc leaders
          \<and> (\<forall>r\<in>set leaders.
                l_goals r = goals_of (l_player_id r) (db (scorers_call args))
                \<and> 0 < l_goals r
                \<and> l_name r
                    = dget (case dd_lookup pd (l_player_id r) of None \<Rightarrow> [] | Some d \<Rightarrow> d)
                        ''name'')
          \<and> (\<forall>p. dd_lookup gc p = None \<longleftrightarrow> goals_of p (db (scorers_call args)) = 0)))
   \<and> top_scorers scorers_store [] =
        ([scorers_call [], players_call [(PStr ''p1'', 2)]],
         Inr (PDict [(''leaders'',
                PList [PDict [(''player_id'', PStr ''p1''), (''name'', PStr ''Ann''),
                              (''goals'', PInt 2)]])],
              200))"
proof -
  have a: "(\<forall>m\<in>set matches. events_ok m) \<longrightarrow>
      (\<exists>gc. count_goals matches [] = Inr gc
         \<and> (\<forall>p. goals_counted gc p = goals_of p matches)
         \<and> (\<forall>p. dd_lookup gc p = None \<longleftrightarrow> goals_of p matches = 0))"
  proof
    assume "\<forall>m\<in>set matches. events_ok m"
    from count_goals_counts [OF this, of "[]"]
    show "\<exists>gc. count_goals matches [] = Inr gc
         \<and> (\<forall>p. goals_counted gc p = goals_of p matches)
         \<and> (\<forall>p. dd_lookup gc p = None \<longleftrightarrow> goals_of p matches = 0)"
      by (auto simp: goals_counted_def)
  qed
  have b: "py_int (args_get_default args ''limit'' (PInt 20)) = Inr limit
       \<and> (\<forall>m\<in>set (db (scorers_call args)).
             events_ok m \<and> (\<forall>ev\<in>set (events_of m). \<not> goal_event ev)) \<longrightarrow>
       top_scorers db args
         = ([scorers_call args], Inr (PDict [(''leaders'', PList [])], 200))"
    using top_scorers_no_goals [of args limit db] by blast
  have c: "py_int (args_get_default args ''limit'' (PInt 20)) = Inr limit
       \<and> (\<forall>m\<in>set (db (scorers_call args)). events_ok m)
       \<and> (\<exists>m\<in>set (db (scorers_call args)). \<exists>ev\<in>set (events_of m). goal_event ev)
       \<and> (\<forall>call. coll call = ''players'' \<longrightarrow> (\<forall>d\<in>set (db call). player_ok d)) \<longrightarrow>
       (\<exists>gc pd leaders.
          count_goals (db (scorers_call args)) [] = Inr gc
          \<and> index_players (db (players_call gc)) [] = Inr pd
          \<and> top_scorers db args =
              ([scorers_call args, players_call gc],
               Inr (PDict [(''leaders'', PList (map leader_json (slice_to limit leaders)))],
                    200))
          \<and> mset (map l_player_id leaders) = mset (map fst gc)
          \<and> by_goals_desc leaders
          \<and> (\<forall>r\<in>set leaders.
                l_goals r = goals_of (l_player_id r) (db (scorers_call args))
                \<and> 0 < l_goals r
                \<and> l_name r
                    = dget (case dd_lookup pd (l_player_id r) of None \<Rightarrow> [] | Some d \<Rightarrow> d)
                        ''name'')
          \<and> (\<forall>p. dd_lookup gc p = None \<longleftrightarrow> goals_of p (db (scorers_call args)) = 0))"
  proof
    assume h: "py_int (args_get_default args ''limit'' (PInt 20)) = Inr limit
       \<and> (\<forall>m\<in>set (db (scorers_call args)). events_ok m)
       \<and> (\<exists>m\<in>set (db (scorers_call args)). \<exists>ev\<in>set (events_of m). goal_event ev)
       \<and> (\<forall>call. coll call = ''players'' \<longrightarrow> (\<forall>d\<in>set (db call). player_ok d))"
    show "\<exists>gc pd leaders.
          count_goals (db (scorers_call args)) [] = Inr gc
          \<and> index_players (db (players_call gc)) [] = Inr pd
          \<and> top_scorers db args =
              ([scorers_call args, players_call gc],
               Inr (PDict [(''leaders'', PList (map leader_json (slice_to limit leaders)))],
                    200))
          \<and> mset (map l_player_id leaders) = mset (map fst gc)
          \<and> by_goals_desc leaders
          \<and> (\<forall>r\<in>set leaders.
                l_goals r = goals_of (l_player_id r) (db (scorers_call args))
                \<and> 0 < l_goals r
                \<and> l_name r
                    = dget (case dd_lookup pd (l_player_id r) of None \<Rightarrow> [] | Some d \<Rightarrow> d)
                        ''name'')
          \<and> (\<forall>p. dd_lookup gc p = None \<longleftrightarrow> goals_of p (db (scorers_call args)) = 0)"
      by (rule top_scorers_leaders
          [OF h [THEN conjunct1] h [THEN conjunct2, THEN conjunct1]
            h [THEN conjunct2, THEN conjunct2, THEN conjunct1]
            h [THEN conjunct2, THEN conjunct2, THEN conjunct2]])
  qed
  from a b c top_scorers_example show ?thesis by (intro conjI)
qed

theorem top_scorers_counts_witness:
  "events_ok scoring_match
   \<and> goals_of (PStr ''p1'') [scoring_match] = 2
   \<and> (\<exists>gc. count_goals [scoring_match] [] = Inr gc
         \<and> goals_counted gc (PStr ''p1'') = 2
         \<and> dd_lookup gc (PStr ''p2'') = None)
   \<and> py_int (args_get_default [] ''limit'' (PInt 20)) = Inr 20
   \<and> top_scorers (\<lambda>call. [quiet_match, []]) []
        = ([scorers_call []], Inr (PDict [(''leaders'', PList [])], 200))
   \<and> list_all events_ok (scorers_store (scorers_call []))
   \<and> list_ex (\<lambda>m. list_ex goal_event (events_of m)) (scorers_store (scorers_call []))
   \<and> (\<exists>gc leaders.
         count_goals (scorers_store (scorers_call [])) [] = Inr gc
         \<and> top_scorers scorers_store [] =
             ([scorers_call [], players_call gc],
              Inr (PDict [(''leaders'', PList (map leader_json (slice_to 20 leaders)))], 200))
         \<and> mset (map l_player_id leaders) = mset (map fst gc)
         \<and> by_goals_desc leaders
         \<and> list_all (\<lambda>r. l_goals r
               = goals_of (l_player_id r) (scorers_store (scorers_call []))) leaders
         \<and> dd_lookup gc (PStr ''p1'') \<noteq> None)"
proof -
  have ok: "\<forall>m\<in>set [scoring_match]. events_ok m"
    by (simp add: scoring_match_facts)
  note t0 = top_scorers_counts [of "[scoring_match]"]
  from t0 [THEN conjunct1, THEN mp, OF ok] obtain gc where
    gc: "count_goals [scoring_match] [] = Inr gc"
    and c: "\<And>p. goals_counted gc p = goals_of p [scoring_match]"
    and n: "\<And>p. dd_lookup gc p = None \<longleftrightarrow> goals_of p [scoring_match] = 0"
    by (elim exE conjE) blast
  have "goals_counted gc (PStr ''p1'') = 2" "dd_lookup gc (PStr ''p2'') = None"
    by (simp_all add: c n scoring_match_facts)
  with gc have counts: "\<exists>gc. count_goals [scoring_match] [] = Inr gc
         \<and> goals_counted gc (PStr ''p1'') = 2
         \<and> dd_lookup gc (PStr ''p2'') = None"
    by (intro exI [of _ gc] conjI)
  have limit: "py_int (args_get_default [] ''limit'' (PInt 20)) = Inr 20"
    by (simp add: args_get_default_def)
  have quiet: "\<forall>m\<in>set ((\<lambda>call. [quiet_match, []]) (scorers_call [])).
             events_ok m \<and> (\<forall>ev\<in>set (events_of m). \<not> goal_event ev)"
    using quiet_match_facts by (simp add: list_all_iff)
  note t1 = top_scorers_counts [of _ "[]" 20 "\<lambda>call. [quiet_match, []]"]
  note empty = t1 [THEN conjunct2, THEN conjunct1, THEN mp, OF conjI, OF limit quiet]
  have sok: "\<forall>m\<in>set (scorers_store (scorers_call [])). events_ok m"
    using scorers_store_facts(1) by (simp only: list_all_iff)
  have sgoal: "\<exists>m\<in>set (scorers_store (scorers_call [])). \<exists>ev\<in>set (events_of m). goal_event ev"
    using scorers_store_facts(2) by (simp only: list_ex_iff)
  note t2 = top_scorers_counts [of _ "[]" 20 scorers_store]
  note full = t2 [THEN conjunct2, THEN conjunct2, THEN conjunct1, THEN mp,
      OF conjI [OF limit conjI [OF sok conjI [OF sgoal scorers_store_players]]]]
  from full obtain gc2 pd leaders where
    g2: "count_goals (scorers_store (scorers_call [])) [] = Inr gc2"
    and route: "top_scorers scorers_store [] =
             ([scorers_call [], players_call gc2],
              Inr (PDict [(''leaders'', PList (map leader_json (slice_to 20 leaders)))], 200))"
    and ids: "mset (map l_player_id leaders) = mset (map fst gc2)"
    and srt: "by_goals_desc leaders"
    and each: "\<forall>r\<in>set leaders.
                l_goals r = goals_of (l_player_id r) (scorers_store (scorers_call []))
                \<and> 0 < l_goals r
                \<and> l_name r
                    = dget (case dd_lookup pd (l_player_id r) of None \<Rightarrow> [] | Some d \<Rightarrow> d)
                        ''name''"
    and none: "\<forall>p. dd_lookup gc2 p = None
                 \<longleftrightarrow> goals_of p (scorers_store (scorers_call [])) = 0"
    by (elim exE conjE)
  from each have each': "list_all (\<lambda>r. l_goals r
               = goals_of (l_player_id r) (scorers_store (scorers_call []))) leaders"
    by (simp add: list_all_iff)
  from none scorers_store_facts(3) have p1: "dd_lookup gc2 (PStr ''p1'') \<noteq> None"
    by simp
  from g2 route ids srt each' p1 have lead: "\<exists>gc leaders.
         count_goals (scorers_store (scorers_call [])) [] = Inr gc
         \<and> top_scorers scorers_store [] =
             ([scorers_call [], players_call gc],
              Inr (PDict [(''leaders'', PList (map leader_json (slice_to 20 leaders)))], 200))
         \<and> mset (map l_player_id leaders) = mset (map fst gc)
         \<and> by_goals_desc leaders
         \<and> list_all (\<lambda>r. l_goals r
               = goals_of (l_player_id r) (scorers_store (scorers_call []))) leaders
         \<and> dd_lookup gc (PStr ''p1'') \<noteq> None"
    by (intro exI [of _ gc2] exI [of _ leaders] conjI)
  from scoring_match_facts(1,2) counts limit empty scorers_store_facts(1,2) lead
  show ?thesis by (intro conjI)
qed

subsection \<open>Head-to-head\<close>

lemma satisfies_h2h: "satisfies d (h2h_query (PStr a) (PStr b)) = between_teams a b d"
  by (auto simp: satisfies_def h2h_query_def fields_match_def between_teams_def)

lemma serialize_match_fields:
  "map fst (serialize_match d) = public_fields"
  "\<forall>k\<in>set public_fields. dget (serialize_match d) k = dget d k"
  by (simp_all add: serialize_match_def public_fields_def dget_def dget_default_def)

lemma head_to_head_read:
  assumes "map_of args ''team_a'' = Some a" "a \<noteq> []"
    and "map_of args ''team_b'' = Some b" "b \<noteq> []"
    and "py_int (args_get_default args ''limit'' (PInt 20)) = Inr limit"
  shows "head_to_head db args =
     ([h2h_call a b limit],
      Inr (PDict [(''team_a'', PStr a), (''team_b'', PStr b),
                  (''matches'', PList (map (PDict \<circ> serialize_match) (db (h2h_call a b limit))))],
           200))"
  using assms by (simp add: head_to_head_def args_get_def h2h_call_def jsonify_def Let_def)

lemma find_matches_h2h:
  "\<exists>found. find_matches stamp docs (h2h_call a b limit) = take (nat limit) found
     \<and> mset found = mset (filter (between_teams a b) docs)
     \<and> newest_first stamp found"
proof -
  let ?sel = "filter (between_teams a b) docs"
  let ?found = "sort_key (\<lambda>d. - 1 * stamp (dget d ''date'')) ?sel"
  have "find_matches stamp docs (h2h_call a b limit) = take (nat limit) ?found"
    by (simp add: find_matches_def h2h_call_def satisfies_h2h Let_def)
  moreover have "mset ?found = mset ?sel" by simp
  moreover have "newest_first stamp ?found"
  proof -
    have "sorted (map (\<lambda>d. - 1 * stamp (dget d ''date'')) ?found)"
      by (rule sorted_sort_key)
    then show ?thesis by (simp add: newest_first_def sorted_map)
  qed
  ultimately show ?thesis by blast
qed

text \<open>
  C9. For two team identifiers that are given and a positive \<^verbatim>\<open>limit\<close>, the
  head-to-head route issues one read of the store and returns, under \<^verbatim>\<open>matches\<close>, the
  first \<open>limit\<close> of the matches between the two teams in either home and away order,
  newest first, each projected by \<^verbatim>\<open>serialize_match\<close>. A projected match has exactly
  the public fields id, date, competition id, season id, home team id, away team id and
  score, each with the value the stored match has for it. Nothing else is computed.
\<close>

theorem head_to_head_matches:
  "(map_of args ''team_a'' = Some a \<and> a \<noteq> [] \<and> map_of args ''team_b'' = Some b \<and> b \<noteq> []
    \<and> py_int (args_get_default args ''limit'' (PInt 20)) = Inr limit \<and> 0 < limit \<longrightarrow>
      (\<exists>found.
         head_to_head (find_matches stamp docs) args =
           ([h2h_call a b limit],
            Inr (PDict [(''team_a'', PStr a), (''team_b'', PStr b),
                        (''matches'',
                         PList (map (PDict \<circ> serialize_match) (take (nat limit) found)))],
                 200))
         \<and> mset found = mset (filter (between_teams a b) docs)
         \<and> newest_first stamp found))
   \<and> map fst (serialize_match d) = public_fields
   \<and> (\<forall>k\<in>set public_fields. dget (serialize_match d) k = dget d k)"
proof (intro conjI impI)
  assume a: "map_of args ''team_a'' = Some a \<and> a \<noteq> [] \<and> map_of args ''team_b'' = Some b
    \<and> b \<noteq> [] \<and> py_int (args_get_default args ''limit'' (PInt 20)) = Inr limit \<and> 0 < limit"
  from find_matches_h2h [of stamp docs a b limit] obtain found where
    f: "find_matches stamp docs (h2h_call a b limit) = take (nat limit) found"
    "mset found = mset (filter (between_teams a b) docs)" "newest_first stamp found"
    by blast
  from a have "head_to_head (find_matches stamp docs) args =
     ([h2h_call a b limit],
      Inr (PDict [(''team_a'', PStr a), (''team_b'', PStr b),
                  (''matches'', PList (map (PDict \<circ> serialize_match)
                     (find_matches stamp docs (h2h_call a b limit))))], 200))"
    by (intro head_to_head_read) simp_all
  with f show "\<exists>found.
         head_to_head (find_matches stamp docs) args =
           ([h2h_call a b limit],
            Inr (PDict [(''team_a'', PStr a), (''team_b'', PStr b),
                        (''matches'',
                         PList (map (PDict \<circ> serialize_match) (take (nat limit) found)))],
                 200))
         \<and> mset found = mset (filter (between_teams a b) docs)
         \<and> newest_first stamp found"
    by (intro exI [of _ found]) simp
qed (simp_all add: serialize_match_fields)

lemma head_to_head_example:
  "head_to_head (find_matches int_stamp stored_matches) h2h_args =
     ([h2h_call ''A'' ''B'' 2],
      Inr (PDict [(''team_a'', PStr ''A''), (''team_b'', PStr ''B''),
                  (''matches'',
                   PList [PDict (serialize_match (dated_match ''m4'' 40 ''A'' ''B'')),
                          PDict (serialize_match (dated_match ''m2'' 30 ''B'' ''A''))])],
           200))"
  by code_simp

theorem head_to_head_matches_witness:
  "map_of h2h_args ''team_a'' = Some ''A'' \<and> map_of h2h_args ''team_b'' = Some ''B''
   \<and> py_int (args_get_default h2h_args ''limit'' (PInt 20)) = Inr 2
   \<and> (\<exists>found.
         head_to_head (find_matches int_stamp stored_matches) h2h_args =
           ([h2h_call ''A'' ''B'' 2],
            Inr (PDict [(''team_a'', PStr ''A''), (''team_b'', PStr ''B''),
                        (''matches'',
                         PList (map (PDict \<circ> serialize_match) (take (nat 2) found)))],
                 200))
         \<and> mset found = mset (filter (between_teams ''A'' ''B'') stored_matches)
         \<and> newest_first int_stamp found)
   \<and> head_to_head (find_matches int_stamp stored_matches) h2h_args =
        ([h2h_call ''A'' ''B'' 2],
         Inr (PDict [(''team_a'', PStr ''A''), (''team_b'', PStr ''B''),
                     (''matches'',
                      PList [PDict (serialize_match (dated_match ''m4'' 40 ''A'' ''B'')),
                             PDict (serialize_match (dated_match ''m2'' 30 ''B'' ''A''))])],
              200))
   \<and> dget (serialize_match (dated_match ''m4'' 40 ''A'' ''B'')) ''date'' = PInt 40
   \<and> dget (serialize_match (dated_match ''m4'' 40 ''A'' ''B'')) ''events'' = PNone"
proof -
  have pre: "map_of h2h_args ''team_a'' = Some ''A''" "map_of h2h_args ''team_b'' = Some ''B''"
    "py_int (args_get_default h2h_args ''limit'' (PInt 20)) = Inr 2"
    by (simp_all add: h2h_args_def args_get_default_def int_of_str_examples)
  note t = head_to_head_matches [of h2h_args "''A''" "''B''" 2 int_stamp stored_matches
      "dated_match ''m4'' 40 ''A'' ''B''"]
  from t pre have ex: "\<exists>found.
         head_to_head (find_matches int_stamp stored_matches) h2h_args =
           ([h2h_call ''A'' ''B'' 2],
            Inr (PDict [(''team_a'', PStr ''A''), (''team_b'', PStr ''B''),
                        (''matches'',
                         PList (map (PDict \<circ> serialize_match) (take (nat 2) found)))],
                 200))
         \<and> mset found = mset (filter (between_teams ''A'' ''B'') stored_matches)
         \<and> newest_first int_stamp found"
    by simp
  have "''date'' \<in> set public_fields" by (simp add: public_fields_def)
  with t have d: "dget (serialize_match (dated_match ''m4'' 40 ''A'' ''B'')) ''date''
      = dget (dated_match ''m4'' 40 ''A'' ''B'') ''date''"
    by blast
  have date: "dget (serialize_match (dated_match ''m4'' 40 ''A'' ''B'')) ''date'' = PInt 40"
    unfolding d by (simp add: dated_match_def dget_def dget_default_def)
  have ev: "dget (serialize_match (dated_match ''m4'' 40 ''A'' ''B'')) ''events'' = PNone"
    by (simp add: serialize_match_def dget_def dget_default_def)
  from pre ex head_to_head_example date ev show ?thesis by (intro conjI)
qed

end
